theory Spec2Isabelle
  imports Main "HOL-Library.Word"
begin

section \<open>Values, errors and bytes\<close>

text \<open>
  The module \<^verbatim>\<open>DiscordRPC/presence.py\<close> talks to a local endpoint in frames: an
  8-byte header (two little-endian unsigned 32-bit fields, op code and payload length)
  followed by a JSON document. The functions below follow the methods of the abstract
  class \<^verbatim>\<open>RPC\<close> and of its two subclasses one by one.

  Python values that travel as JSON are values of \<open>pyval\<close>. A \<^verbatim>\<open>dict\<close> is an association
  list in insertion order with string keys, which are distinct. Strings are \<open>string\<close>,
  one \<open>char\<close> per character (code points 0 to 255), so that \<open>length\<close> is Python's
  \<^verbatim>\<open>len\<close>. Numbers are integers. A \<^verbatim>\<open>tuple\<close> and a \<^verbatim>\<open>list\<close> of the same items are different
  values, as they are in Python.
\<close>

type_synonym byte = "8 word"
type_synonym bytes = "byte list"

datatype pyval =
    PNone
  | PBool bool
  | PInt int
  | PStr string
  | PList "pyval list"
  | PTuple "pyval list"
  | PDict "(string \<times> pyval) list"

text \<open>
  Every exception the module raises, or lets through from a primitive it calls, is a
  value of \<open>error\<close>. \<open>Error\<close>, \<open>ActivityError\<close> and \<open>DiscordNotOpened\<close> are the classes
  imported from \<^verbatim>\<open>.exceptions\<close>; the others are Python's own.
\<close>

datatype error =
    OSError string
  | StructError
  | TypeError
  | KeyError string
  | ValueError
  | RuntimeError pyval
  | Error string
  | ActivityError
  | DiscordNotOpened

definition OP_HANDSHAKE :: int where "OP_HANDSHAKE = 0"
definition OP_FRAME :: int where "OP_FRAME = 1"
definition OP_CLOSE :: int where "OP_CLOSE = 2"
definition OP_PING :: int where "OP_PING = 3"
definition OP_PONG :: int where "OP_PONG = 4"

subsection \<open>The header: \<^verbatim>\<open>struct.pack("<II", op, n)\<close> and \<^verbatim>\<open>struct.unpack("<II", header)\<close>\<close>

definition le32 :: "nat \<Rightarrow> bytes" where
  "le32 n = [of_nat n, of_nat (n div 256), of_nat (n div 65536), of_nat (n div 16777216)]"

definition un_le32 :: "bytes \<Rightarrow> nat" where
  "un_le32 bs = foldr (\<lambda>b acc. unat b + 256 * acc) bs 0"

text \<open>\<^verbatim>\<open>struct.pack\<close> raises \<^verbatim>\<open>struct.error\<close> for a field outside \<open>0 .. 2^32 - 1\<close>.\<close>

definition struct_pack_II :: "int \<Rightarrow> int \<Rightarrow> error + bytes" where
  "struct_pack_II a b =
     (if 0 \<le> a \<and> a < 4294967296 \<and> 0 \<le> b \<and> b < 4294967296
      then Inr (le32 (nat a) @ le32 (nat b))
      else Inl StructError)"

text \<open>\<^verbatim>\<open>struct.unpack\<close> raises \<^verbatim>\<open>struct.error\<close> for a buffer that is not 8 bytes long.\<close>

definition struct_unpack_II :: "bytes \<Rightarrow> error + (int \<times> int)" where
  "struct_unpack_II header =
     (if length header = 8
      then Inr (int (un_le32 (take 4 header)), int (un_le32 (drop 4 header)))
      else Inl StructError)"

subsection \<open>The JSON codec\<close>

text \<open>
  \<^verbatim>\<open>json.dumps(data, separators=(',', ':')).encode('utf-8')\<close> and
  \<^verbatim>\<open>json.loads(payload.decode('utf-8'))\<close> belong to Python's library. They are
  parameters of the model: \<open>dumps\<close> may raise (a value that is not serialisable) and so
  may \<open>loads\<close> (malformed JSON or UTF-8).
\<close>

record codec =
  dumps :: "pyval \<Rightarrow> error + bytes"
  loads :: "bytes \<Rightarrow> error + pyval"

text \<open>
  What \<^verbatim>\<open>json.dumps(data, separators=(',', ':'))\<close> writes, after Python's \<^verbatim>\<open>json.encoder\<close>:
  \<^verbatim>\<open>null\<close>, \<^verbatim>\<open>true\<close>, \<^verbatim>\<open>false\<close>, an integer in decimal, a string between double quotes,
  a list or a tuple as \<^verbatim>\<open>[a,b]\<close>, a dictionary as \<^verbatim>\<open>{"k":v}\<close>. In a string (the default
  \<^verbatim>\<open>ensure_ascii=True\<close>) the characters from space to \<^verbatim>\<open>~\<close> stand for themselves but for
  the double quote and the backslash, which take a backslash; backspace, form feed,
  newline, carriage return and tab are \<^verbatim>\<open>\b \f \n \r \t\<close>; any other character is
  \<^verbatim>\<open>\u\<close> and four lower-case hexadecimal digits. The text is ASCII, so its UTF-8
  encoding is one byte per character.
\<close>

fun decimal :: "nat \<Rightarrow> string" where
  "decimal n =
     (if n < 10 then [''0123456789'' ! n]
      else decimal (n div 10) @ [''0123456789'' ! (n mod 10)])"

definition hex_digit :: "nat \<Rightarrow> char" where
  "hex_digit n = ''0123456789abcdef'' ! n"

definition json_char :: "char \<Rightarrow> string" where
  "json_char c =
     (if c = CHR 0x22 then [CHR 0x5C, CHR 0x22]
      else if c = CHR 0x5C then [CHR 0x5C, CHR 0x5C]
      else if c = CHR 0x08 then [CHR 0x5C, CHR ''b'']
      else if c = CHR 0x0C then [CHR 0x5C, CHR ''f'']
      else if c = CHR 0x0A then [CHR 0x5C, CHR ''n'']
      else if c = CHR 0x0D then [CHR 0x5C, CHR ''r'']
      else if c = CHR 0x09 then [CHR 0x5C, CHR ''t'']
      else if 32 \<le> (of_char c :: nat) \<and> (of_char c :: nat) \<le> 126 then [c]
      else [CHR 0x5C, CHR ''u'', CHR ''0'', CHR ''0'',
            hex_digit ((of_char c :: nat) div 16), hex_digit ((of_char c :: nat) mod 16)])"

definition json_string :: "string \<Rightarrow> string" where
  "json_string s = CHR 0x22 # concat (map json_char s) @ [CHR 0x22]"

fun join_comma :: "string list \<Rightarrow> string" where
  "join_comma [] = []"
| "join_comma [x] = x"
| "join_comma (x # y # ys) = x @ '','' @ join_comma (y # ys)"

primrec json_text :: "pyval \<Rightarrow> string" where
  "json_text PNone = ''null''"
| "json_text (PBool b) = (if b then ''true'' else ''false'')"
| "json_text (PInt i) = (if i < 0 then ''-'' @ decimal (nat (- i)) else decimal (nat i))"
| "json_text (PStr s) = json_string s"
| "json_text (PList xs) = ''['' @ join_comma (map json_text xs) @ '']''"
| "json_text (PTuple xs) = ''['' @ join_comma (map json_text xs) @ '']''"
| "json_text (PDict kvs) =
     ''{'' @ join_comma (map (\<lambda>kt. json_string (fst kt) @ '':'' @ snd kt)
                           (map (map_prod id json_text) kvs)) @ ''}''"

definition ascii :: "string \<Rightarrow> bytes" where
  "ascii s = map (\<lambda>c. of_nat (of_char c)) s"

definition json_dumps :: "pyval \<Rightarrow> error + bytes" where
  "json_dumps v = Inr (ascii (json_text v))"

subsection \<open>Subscripting: \<^verbatim>\<open>d[key]\<close> with a string key\<close>

text \<open>
  A \<^verbatim>\<open>dict\<close> without the key raises \<^verbatim>\<open>KeyError\<close>; any other value raises
  \<^verbatim>\<open>TypeError\<close> (a list or a string does not take a string index, the others are not
  subscriptable).
\<close>

fun py_getitem :: "pyval \<Rightarrow> string \<Rightarrow> error + pyval" where
  "py_getitem (PDict d) k = (case map_of d k of None \<Rightarrow> Inl (KeyError k) | Some v \<Rightarrow> Inr v)"
| "py_getitem _ k = Inl TypeError"

section \<open>The transport: the abstract methods of \<^verbatim>\<open>RPC\<close>\<close>

text \<open>
  \<^verbatim>\<open>_write\<close>, \<^verbatim>\<open>_recv\<close> and \<^verbatim>\<open>_close\<close> are abstract in \<^verbatim>\<open>RPC\<close>. A transport is a
  state of type \<open>'t\<close> together with the three methods; each returns the new state and
  either a result or the exception it raised.
\<close>

record 't transport =
  t_write :: "'t \<Rightarrow> bytes \<Rightarrow> (error + unit) \<times> 't"
  t_recv :: "'t \<Rightarrow> int \<Rightarrow> (error + bytes) \<times> 't"
  t_close :: "'t \<Rightarrow> (error + unit) \<times> 't"

subsection \<open>\<^verbatim>\<open>_recv_exactly\<close>\<close>

text \<open>
  \<^verbatim>\<open>
    buf = b""
    size_remaining = size
    while size_remaining:
        chunk = self._recv(size_remaining)
        buf += chunk
        size_remaining -= len(chunk)
    return buf
  \<close>
  The loop runs while \<open>size_remaining\<close> is not zero and nothing bounds the number of
  rounds, so the result is an option: \<open>None\<close> is a loop that never ends.
\<close>

partial_function (option) recv_exactly_loop ::
  "'t transport \<Rightarrow> 't \<Rightarrow> bytes \<Rightarrow> int \<Rightarrow> ((error + bytes) \<times> 't) option"
where
  "recv_exactly_loop ops t buf size_remaining =
     (if size_remaining = 0 then Some (Inr buf, t)
      else (case t_recv ops t size_remaining of
              (Inl e, t') \<Rightarrow> Some (Inl e, t')
            | (Inr chunk, t') \<Rightarrow>
                recv_exactly_loop ops t' (buf @ chunk) (size_remaining - int (length chunk))))"

declare recv_exactly_loop.simps [code]

definition recv_exactly :: "'t transport \<Rightarrow> 't \<Rightarrow> int \<Rightarrow> ((error + bytes) \<times> 't) option" where
  "recv_exactly ops t sz = recv_exactly_loop ops t [] sz"

subsection \<open>\<^verbatim>\<open>_recv_header\<close>\<close>

definition recv_header :: "'t transport \<Rightarrow> 't \<Rightarrow> ((error + (int \<times> int)) \<times> 't) option" where
  "recv_header ops t =
     (case recv_exactly ops t 8 of
        None \<Rightarrow> None
      | Some (Inl e, t') \<Rightarrow> Some (Inl e, t')
      | Some (Inr header, t') \<Rightarrow> Some (struct_unpack_II header, t'))"

subsection \<open>\<^verbatim>\<open>send\<close>\<close>

text \<open>
  \<^verbatim>\<open>
    data_str = json.dumps(data, separators=(',', ':'))
    data_bytes = data_str.encode('utf-8')
    header = struct.pack("<II", op, len(data_bytes))
    self._write(header)
    self._write(data_bytes)
  \<close>
\<close>

definition send :: "'t transport \<Rightarrow> codec \<Rightarrow> 't \<Rightarrow> pyval \<Rightarrow> int \<Rightarrow> (error + unit) \<times> 't" where
  "send ops cdc t data op =
     (case dumps cdc data of
        Inl e \<Rightarrow> (Inl e, t)
      | Inr data_bytes \<Rightarrow>
          (case struct_pack_II op (int (length data_bytes)) of
             Inl e \<Rightarrow> (Inl e, t)
           | Inr header \<Rightarrow>
               (case t_write ops t header of
                  (Inl e, t1) \<Rightarrow> (Inl e, t1)
                | (Inr _, t1) \<Rightarrow> t_write ops t1 data_bytes)))"

subsection \<open>\<^verbatim>\<open>recv\<close>\<close>

text \<open>
  \<^verbatim>\<open>
    op, length = self._recv_header()
    payload = self._recv_exactly(length)
    data = json.loads(payload.decode('utf-8'))
    return op, data
  \<close>
\<close>

definition recv :: "'t transport \<Rightarrow> codec \<Rightarrow> 't \<Rightarrow> ((error + (int \<times> pyval)) \<times> 't) option" where
  "recv ops cdc t =
     (case recv_header ops t of
        None \<Rightarrow> None
      | Some (Inl e, t1) \<Rightarrow> Some (Inl e, t1)
      | Some (Inr (op, len), t1) \<Rightarrow>
          (case recv_exactly ops t1 len of
             None \<Rightarrow> None
           | Some (Inl e, t2) \<Rightarrow> Some (Inl e, t2)
           | Some (Inr payload, t2) \<Rightarrow>
               (case loads cdc payload of
                  Inl e \<Rightarrow> Some (Inl e, t2)
                | Inr data \<Rightarrow> Some (Inr (op, data), t2))))"

subsection \<open>\<^verbatim>\<open>send_recv\<close>\<close>

definition send_recv ::
  "'t transport \<Rightarrow> codec \<Rightarrow> 't \<Rightarrow> pyval \<Rightarrow> int \<Rightarrow> ((error + (int \<times> pyval)) \<times> 't) option" where
  "send_recv ops cdc t data op =
     (case send ops cdc t data op of
        (Inl e, t1) \<Rightarrow> Some (Inl e, t1)
      | (Inr _, t1) \<Rightarrow> recv ops cdc t1)"

subsection \<open>\<^verbatim>\<open>close\<close>\<close>

text \<open>
  \<^verbatim>\<open>
    try:
        self.send({}, op=OP_CLOSE)
    finally:
        self._close()
  \<close>
  The \<^verbatim>\<open>finally\<close> block runs on both paths. When it raises, its exception is the one
  that leaves \<^verbatim>\<open>close\<close>; otherwise the exception of \<^verbatim>\<open>send\<close>, if any, does.
\<close>

definition close :: "'t transport \<Rightarrow> codec \<Rightarrow> 't \<Rightarrow> (error + unit) \<times> 't" where
  "close ops cdc t =
     (case send ops cdc t (PDict []) OP_CLOSE of
        (r, t1) \<Rightarrow>
          (case t_close ops t1 of
             (Inl e, t2) \<Rightarrow> (Inl e, t2)
           | (Inr _, t2) \<Rightarrow> (r, t2)))"

subsection \<open>\<^verbatim>\<open>_do_handshake\<close>\<close>

text \<open>
  The test \<^verbatim>\<open>ret_op == OP_FRAME and ret_data['cmd'] == 'DISPATCH' and
  ret_data['evt'] == 'READY'\<close> evaluates from left to right and stops at the first
  false operand; a subscript it does evaluate may raise.
\<close>

definition handshake_ready :: "int \<Rightarrow> pyval \<Rightarrow> error + bool" where
  "handshake_ready ret_op ret_data =
     (if ret_op = OP_FRAME then
        (case py_getitem ret_data ''cmd'' of
           Inl e \<Rightarrow> Inl e
         | Inr c \<Rightarrow>
             if c = PStr ''DISPATCH'' then
               (case py_getitem ret_data ''evt'' of
                  Inl e \<Rightarrow> Inl e
                | Inr ev \<Rightarrow> Inr (ev = PStr ''READY''))
             else Inr False)
      else Inr False)"

definition do_handshake ::
  "'t transport \<Rightarrow> codec \<Rightarrow> string \<Rightarrow> 't \<Rightarrow> ((error + unit) \<times> 't) option" where
  "do_handshake ops cdc client_id t =
     (case send_recv ops cdc t (PDict [(''v'', PInt 1), (''client_id'', PStr client_id)])
             OP_HANDSHAKE of
        None \<Rightarrow> None
      | Some (Inl e, t1) \<Rightarrow> Some (Inl e, t1)
      | Some (Inr (ret_op, ret_data), t1) \<Rightarrow>
          (case handshake_ready ret_op ret_data of
             Inl e \<Rightarrow> Some (Inl e, t1)
           | Inr True \<Rightarrow> Some (Inr (), t1)
           | Inr False \<Rightarrow>
               if ret_op = OP_CLOSE then
                 (case close ops cdc t1 of
                    (Inl e, t2) \<Rightarrow> Some (Inl e, t2)
                  | (Inr _, t2) \<Rightarrow> Some (Inl (RuntimeError ret_data), t2))
               else Some (Inl (RuntimeError ret_data), t1)))"

section \<open>\<^verbatim>\<open>set_activity\<close>\<close>

text \<open>
  The six parameters annotated \<^verbatim>\<open>str\<close> are \<^verbatim>\<open>None\<close> or a string; \<^verbatim>\<open>timestamp\<close> and
  \<^verbatim>\<open>buttons\<close> are any value. \<open>default_args\<close> holds the defaults of the signature.
\<close>

record activity_args =
  state :: "string option"
  details :: "string option"
  timestamp :: pyval
  small_text :: "string option"
  large_text :: "string option"
  small_image :: "string option"
  large_image :: "string option"
  buttons :: pyval

definition default_args :: activity_args where
  "default_args =
     \<lparr>state = None, details = None, timestamp = PNone,
      small_text = Some ''null'', large_text = Some ''null'',
      small_image = Some ''null'', large_image = Some ''null'',
      buttons = PNone\<rparr>"

definition py_of :: "string option \<Rightarrow> pyval" where
  "py_of x = (case x of None \<Rightarrow> PNone | Some s \<Rightarrow> PStr s)"

text \<open>\<^verbatim>\<open>len(x)\<close>: \<^verbatim>\<open>None\<close> has no length (\<^verbatim>\<open>TypeError\<close>).\<close>

definition py_len :: "string option \<Rightarrow> error + nat" where
  "py_len x = (case x of None \<Rightarrow> Inl TypeError | Some s \<Rightarrow> Inr (length s))"

text \<open>\<^verbatim>\<open>str(x)\<close>: the string itself, and \<^verbatim>\<open>'None'\<close> for \<^verbatim>\<open>None\<close>.\<close>

definition py_str :: "string option \<Rightarrow> string" where
  "py_str x = (case x of None \<Rightarrow> ''None'' | Some s \<Rightarrow> s)"

definition large_text_msg :: string where
  "large_text_msg = CHR 0x22 # ''large text'' @ CHR 0x22 # '' must be at least above 3 characters''"

definition small_text_msg :: string where
  "small_text_msg = CHR 0x22 # ''small text'' @ CHR 0x22 # '' must be at least above 3 characters''"

text \<open>
  The two length checks that open \<^verbatim>\<open>set_activity\<close>:
  \<^verbatim>\<open>
    if len(large_text) <= 3:
        raise Error('"large text" must be at least above 3 characters')
    if len(small_text) <= 3:
        raise Error('"small text" must be at least above 3 characters')
  \<close>
\<close>

definition check_texts :: "activity_args \<Rightarrow> error + unit" where
  "check_texts a =
     (case py_len (large_text a) of
        Inl e \<Rightarrow> Inl e
      | Inr n \<Rightarrow>
          if n \<le> 3 then Inl (Error large_text_msg)
          else (case py_len (small_text a) of
                  Inl e \<Rightarrow> Inl e
                | Inr m \<Rightarrow> if m \<le> 3 then Inl (Error small_text_msg) else Inr ()))"

text \<open>\<^verbatim>\<open>d.pop(k, None)\<close> removes the key when it is there and never raises.\<close>

definition dict_pop :: "string \<Rightarrow> (string \<times> pyval) list \<Rightarrow> (string \<times> pyval) list" where
  "dict_pop k d = filter (\<lambda>kv. fst kv \<noteq> k) d"

text \<open>\<^verbatim>\<open>act['assets'].pop(k, None)\<close>: the pop happens inside the dictionary stored under \<^verbatim>\<open>'assets'\<close>.\<close>

definition assets_pop :: "string \<Rightarrow> (string \<times> pyval) list \<Rightarrow> (string \<times> pyval) list" where
  "assets_pop k act =
     map (\<lambda>kv. if fst kv = ''assets''
                then (fst kv, (case snd kv of PDict d \<Rightarrow> PDict (dict_pop k d) | v \<Rightarrow> v))
                else kv) act"

text \<open>
  The dictionary \<^verbatim>\<open>act\<close> as it stands when the envelope is built: the literal, then the
  six conditional pops in the order of the source.
\<close>

definition activity :: "activity_args \<Rightarrow> (string \<times> pyval) list" where
  "activity a =
     (let act0 = [(''state'', py_of (state a)),
                  (''details'', py_of (details a)),
                  (''timestamps'', PDict [(''start'', timestamp a)]),
                  (''assets'', PDict [(''small_text'', py_of (small_text a)),
                                     (''large_text'', py_of (large_text a)),
                                     (''small_image'', PStr (py_str (small_image a))),
                                     (''large_image'', PStr (py_str (large_image a)))]),
                  (''buttons'', buttons a)];
          act1 = (if state a = None \<or> state a = Some [] \<or> state a = Some ''null''
                  then dict_pop ''state'' act0 else act0);
          act2 = (if details a = None \<or> details a = Some [] \<or> details a = Some ''null''
                  then dict_pop ''details'' act1 else act1);
          act3 = (if small_text a = None \<or> small_text a = Some [] \<or> small_text a = Some ''null''
                  then assets_pop ''small_text'' act2 else act2);
          act4 = (if large_text a = None \<or> large_text a = Some [] \<or> large_text a = Some ''null''
                  then assets_pop ''large_text'' act3 else act3);
          act5 = (if timestamp a = PNone then dict_pop ''timestamps'' act4 else act4);
          act6 = (if buttons a = PNone then dict_pop ''buttons'' act5 else act5)
      in act6)"

text \<open>
  The envelope. \<open>pid\<close> is \<^verbatim>\<open>os.getpid()\<close> and \<open>nonce\<close> is
  \<^verbatim>\<open>datetime.now().strftime("%D - %H:%M:%S")\<close>: both come from the environment.
\<close>

definition envelope :: "int \<Rightarrow> string \<Rightarrow> activity_args \<Rightarrow> pyval" where
  "envelope pid nonce a =
     PDict [(''cmd'', PStr ''SET_ACTIVITY''),
            (''args'', PDict [(''pid'', PInt pid), (''activity'', PDict (activity a))]),
            (''nonce'', PStr nonce)]"

text \<open>
  The object: \<^verbatim>\<open>client_id\<close>, \<^verbatim>\<open>get_output\<close> and the connection the subclass holds
  (\<^verbatim>\<open>_f\<close> or \<^verbatim>\<open>_sock\<close>).
\<close>

record 't rpc =
  client_id :: string
  get_output :: pyval
  conn :: 't

definition set_activity ::
  "'t transport \<Rightarrow> codec \<Rightarrow> int \<Rightarrow> string \<Rightarrow> 't rpc \<Rightarrow> activity_args
     \<Rightarrow> ((error + (int \<times> pyval)) \<times> 't rpc) option" where
  "set_activity ops cdc pid nonce self a =
     (case check_texts a of
        Inl e \<Rightarrow> Some (Inl e, self)
      | Inr _ \<Rightarrow>
          (case send ops cdc (conn self) (envelope pid nonce a) OP_FRAME of
             (Inl e, t1) \<Rightarrow> Some (Inl e, self\<lparr>conn := t1\<rparr>)
           | (Inr _, t1) \<Rightarrow>
               (case recv_header ops t1 of
                  None \<Rightarrow> None
                | Some (Inl e, t2) \<Rightarrow> Some (Inl e, self\<lparr>conn := t2\<rparr>)
                | Some (Inr (op, len), t2) \<Rightarrow>
                    (case recv_exactly ops t2 len of
                       None \<Rightarrow> None
                     | Some (Inl e, t3) \<Rightarrow> Some (Inl e, self\<lparr>conn := t3\<rparr>)
                     | Some (Inr payload, t3) \<Rightarrow>
                         (case loads cdc payload of
                            Inl e \<Rightarrow> Some (Inl e, self\<lparr>conn := t3\<rparr>)
                          | Inr output \<Rightarrow>
                              (let self' = self\<lparr>conn := t3, get_output := output\<rparr> in
                               case py_getitem output ''evt'' of
                                 Inl e \<Rightarrow> Some (Inl e, self')
                               | Inr ev \<Rightarrow>
                                   if ev = PStr ''ERROR'' then Some (Inl ActivityError, self')
                                   else Some (Inr (op, output), self')))))))"

definition output_rpc :: "'t rpc \<Rightarrow> pyval" where
  "output_rpc self = get_output self"

section \<open>Connecting: \<^verbatim>\<open>DiscordWindows._connect\<close> and \<^verbatim>\<open>DiscordUnix._connect\<close>\<close>

text \<open>
  The class attribute \<^verbatim>\<open>_pipe_pattern = R'\\?\pipe\discord-ipc-{}'\<close> is a constant whose only
  braces are the final \<^verbatim>\<open>{}\<close>, so \<^verbatim>\<open>self._pipe_pattern.format(i)\<close> is the text before the
  braces followed by \<^verbatim>\<open>str(i)\<close>, the index in decimal (\<open>decimal\<close> above).
\<close>

definition pipe_path :: "nat \<Rightarrow> string" where
  "pipe_path i =
     [CHR 0x5C, CHR 0x5C] @ ''?'' @ [CHR 0x5C] @ ''pipe'' @ [CHR 0x5C] @ ''discord-ipc-'' @
     decimal i"

text \<open>
  Beside its result each loop returns one entry per round, in order: what became of the
  candidate of that round.
\<close>

datatype attempt = Absent string | Refused string | Opened string

fun attempt_path :: "attempt \<Rightarrow> string" where
  "attempt_path (Absent p) = p"
| "attempt_path (Refused p) = p"
| "attempt_path (Opened p) = p"

text \<open>
  \<^verbatim>\<open>
    for i in range(10):
        path = self._pipe_pattern.format(i)
        try:
            self._f = open(path, "w+b")
        except OSError as e:
            logger.error(...)
        else:
            break
    else:
        raise DiscordNotOpened
    self.path = path
  \<close>
  \<open>os_open\<close> is \<^verbatim>\<open>open(path, "w+b")\<close>. Only \<^verbatim>\<open>OSError\<close> is caught.
\<close>

fun win_connect_loop ::
  "(string \<Rightarrow> error + 'h) \<Rightarrow> nat list \<Rightarrow> (error + ('h \<times> string)) \<times> attempt list" where
  "win_connect_loop os_open [] = (Inl DiscordNotOpened, [])"
| "win_connect_loop os_open (i # rest) =
     (let path = pipe_path i in
      case os_open path of
        Inr f \<Rightarrow> (Inr (f, path), [Opened path])
      | Inl (OSError m) \<Rightarrow>
          (case win_connect_loop os_open rest of (r, log) \<Rightarrow> (r, Refused path # log))
      | Inl e \<Rightarrow> (Inl e, [Refused path]))"

definition win_connect :: "(string \<Rightarrow> error + 'h) \<Rightarrow> (error + ('h \<times> string)) \<times> attempt list" where
  "win_connect os_open = win_connect_loop os_open [0..<10]"

text \<open>
  \<^verbatim>\<open>_get_pipe_pattern\<close>: the first of the four variables that is set and not empty, else
  \<^verbatim>\<open>/tmp\<close>, joined with \<^verbatim>\<open>discord-ipc-{}\<close> by \<^verbatim>\<open>os.path.join\<close>.
\<close>

fun first_env :: "(string \<Rightarrow> string option) \<Rightarrow> string list \<Rightarrow> string" where
  "first_env environ [] = ''/tmp''"
| "first_env environ (k # ks) =
     (case environ k of
        None \<Rightarrow> first_env environ ks
      | Some dir_path \<Rightarrow> if dir_path \<noteq> [] then dir_path else first_env environ ks)"

definition os_path_join :: "string \<Rightarrow> string \<Rightarrow> string" where
  "os_path_join a b = (if a = [] \<or> last a = CHR ''/'' then a @ b else a @ ''/'' @ b)"

definition get_pipe_pattern :: "(string \<Rightarrow> string option) \<Rightarrow> string" where
  "get_pipe_pattern environ =
     os_path_join (first_env environ [''XDG_RUNTIME_DIR'', ''TMPDIR'', ''TMP'', ''TEMP''])
       ''discord-ipc-{}''"

text \<open>
  \<^verbatim>\<open>
    for i in range(10):
        path = pipe_pattern.format(i)
        if not os.path.exists(path):
            continue
        try:
            self._sock.connect(path)
        except OSError as e:
            logger.error(...)
        else:
            break
    else:
        raise DiscordNotOpened
  \<close>
  \<open>path_exists\<close> is \<^verbatim>\<open>os.path.exists\<close> and \<open>sock_connect\<close> is \<^verbatim>\<open>self._sock.connect\<close>.
  The pattern holds the base directory, which comes from the environment and may hold
  braces of its own, so \<^verbatim>\<open>pipe_pattern.format(i)\<close> is not computed here: \<open>str_format\<close> is
  Python's \<^verbatim>\<open>str.format\<close> with the one argument \<open>i\<close>. An exception it raises is not
  caught and ends the loop.
\<close>

fun unix_connect_loop ::
  "(string \<Rightarrow> nat \<Rightarrow> error + string) \<Rightarrow> (string \<Rightarrow> bool) \<Rightarrow> (string \<Rightarrow> error + unit)
     \<Rightarrow> string \<Rightarrow> nat list \<Rightarrow> (error + string) \<times> attempt list" where
  "unix_connect_loop str_format path_exists sock_connect pattern [] = (Inl DiscordNotOpened, [])"
| "unix_connect_loop str_format path_exists sock_connect pattern (i # rest) =
     (case str_format pattern i of
        Inl e \<Rightarrow> (Inl e, [])
      | Inr path \<Rightarrow>
          if \<not> path_exists path then
            (case unix_connect_loop str_format path_exists sock_connect pattern rest of
               (r, log) \<Rightarrow> (r, Absent path # log))
          else
            (case sock_connect path of
               Inr _ \<Rightarrow> (Inr path, [Opened path])
             | Inl (OSError m) \<Rightarrow>
                 (case unix_connect_loop str_format path_exists sock_connect pattern rest of
                    (r, log) \<Rightarrow> (r, Refused path # log))
             | Inl e \<Rightarrow> (Inl e, [Refused path])))"

definition unix_connect ::
  "(string \<Rightarrow> nat \<Rightarrow> error + string) \<Rightarrow> (string \<Rightarrow> string option) \<Rightarrow> (string \<Rightarrow> bool)
     \<Rightarrow> (string \<Rightarrow> error + unit) \<Rightarrow> (error + string) \<times> attempt list" where
  "unix_connect str_format environ path_exists sock_connect =
     unix_connect_loop str_format path_exists sock_connect (get_pipe_pattern environ) [0..<10]"

section \<open>Transports and codecs for concrete runs\<close>

text \<open>
  A byte stream in the manner of a socket. \<open>inbuf\<close> is what the peer has sent and the
  client has not read yet; after it the peer has closed, so a read returns the empty
  string. \<open>sched\<close> fixes how the data is split: a read hands over at most \<open>Suc c\<close>
  bytes for the next entry \<open>c\<close>, and all that was asked for once the list is used up.
  \<open>written\<close> keeps the arguments of the writes, \<open>wfail\<close> makes every write fail.
\<close>

record stream =
  inbuf :: bytes
  sched :: "nat list"
  written :: "bytes list"
  wfail :: bool
  is_closed :: bool

definition stream_write :: "stream \<Rightarrow> bytes \<Rightarrow> (error + unit) \<times> stream" where
  "stream_write s d =
     (if is_closed s \<or> wfail s then (Inl (OSError ''write''), s)
      else (Inr (), s\<lparr>written := written s @ [d]\<rparr>))"

definition stream_recv :: "stream \<Rightarrow> int \<Rightarrow> (error + bytes) \<times> stream" where
  "stream_recv s n =
     (if is_closed s then (Inl (OSError ''recv''), s)
      else if n < 0 then (Inl ValueError, s)
      else (let k = (case sched s of [] \<Rightarrow> nat n | c # _ \<Rightarrow> min (nat n) (Suc c))
            in (Inr (take k (inbuf s)),
                s\<lparr>inbuf := drop k (inbuf s), sched := tl (sched s)\<rparr>)))"

definition stream_close :: "stream \<Rightarrow> (error + unit) \<times> stream" where
  "stream_close s = (Inr (), s\<lparr>is_closed := True\<rparr>)"

definition stream_ops :: "stream transport" where
  "stream_ops = \<lparr>t_write = stream_write, t_recv = stream_recv, t_close = stream_close\<rparr>"

text \<open>An endless source that hands over one byte per read: the state counts the reads.\<close>

definition drip_ops :: "nat transport" where
  "drip_ops =
     \<lparr>t_write = (\<lambda>t d. (Inr (), t)),
      t_recv = (\<lambda>t n. (Inr [of_nat t], Suc t)),
      t_close = (\<lambda>t. (Inr (), t))\<rparr>"

text \<open>
  Two sources that break the contract of a read. \<open>blip_ops\<close> returns the empty string
  once, at the first read, and one byte per read after it. \<open>two_ops\<close> returns two bytes
  at every read, whatever was asked for.
\<close>

definition blip_ops :: "nat transport" where
  "blip_ops =
     \<lparr>t_write = (\<lambda>t d. (Inr (), t)),
      t_recv = (\<lambda>t n. (Inr (if t = 0 then [] else [7]), Suc t)),
      t_close = (\<lambda>t. (Inr (), t))\<rparr>"

definition two_ops :: "nat transport" where
  "two_ops =
     \<lparr>t_write = (\<lambda>t d. (Inr (), t)),
      t_recv = (\<lambda>t n. (Inr [7, 7], Suc t)),
      t_close = (\<lambda>t. (Inr (), t))\<rparr>"

text \<open>A codec given by a finite table of values and their JSON texts.\<close>

definition table_codec :: "(pyval \<times> string) list \<Rightarrow> codec" where
  "table_codec tbl =
     \<lparr>dumps = (\<lambda>v. case map_of tbl v of None \<Rightarrow> Inl TypeError | Some s \<Rightarrow> Inr (ascii s)),
      loads = (\<lambda>b. case map_of (map (\<lambda>vs. (ascii (snd vs), fst vs)) tbl) b of
                      None \<Rightarrow> Inl ValueError
                    | Some v \<Rightarrow> Inr v)\<rparr>"

section \<open>The header round trip\<close>

lemma un_le32_le32: "n < 4294967296 \<Longrightarrow> un_le32 (le32 n) = n"
proof -
  assume lt: "n < 4294967296"
  have b: "n div 65536 = n div 256 div 256"
    by (simp add: div_mult2_eq [symmetric])
  have c: "n div 16777216 = n div 256 div 256 div 256"
    by (simp add: div_mult2_eq [symmetric])
  have d: "n div 256 div 256 div 256 < 256"
    using lt by (simp add: div_mult2_eq [symmetric])
  have e: "n = n mod 256 + 256 * (n div 256 mod 256 +
             256 * (n div 256 div 256 mod 256 + 256 * (n div 256 div 256 div 256)))"
    by (simp only: mod_mult_div_eq)
  have "un_le32 (le32 n) = n mod 256 + 256 * (n div 256 mod 256 +
          256 * (n div 256 div 256 mod 256 + 256 * (n div 256 div 256 div 256 mod 256)))"
    by (simp add: un_le32_def le32_def unat_of_nat b c)
  also have "\<dots> = n" using d e by simp
  finally show ?thesis .
qed

lemma length_le32: "length (le32 n) = 4"
  by (simp add: le32_def)

lemma unpack_pack:
  "struct_pack_II a b = Inr h \<Longrightarrow> struct_unpack_II h = Inr (a, b) \<and> length h = 8"
  by (auto simp: struct_pack_II_def struct_unpack_II_def length_le32 un_le32_le32
      split: if_splits)

section \<open>The read loop\<close>

lemma loop_zero: "recv_exactly_loop ops t buf 0 = Some (Inr buf, t)"
  by (simp add: recv_exactly_loop.simps)

lemma loop_step:
  "k \<noteq> 0 \<Longrightarrow> t_recv ops t k = (Inr c, t') \<Longrightarrow>
   recv_exactly_loop ops t buf k = recv_exactly_loop ops t' (buf @ c) (k - int (length c))"
  by (subst recv_exactly_loop.simps) simp

lemma loop_raise:
  "k \<noteq> 0 \<Longrightarrow> t_recv ops t k = (Inl e, t') \<Longrightarrow>
   recv_exactly_loop ops t buf k = Some (Inl e, t')"
  by (subst recv_exactly_loop.simps) simp

lemma loop_contract:
  assumes contract: "\<And>t k. 0 < k \<Longrightarrow>
     \<exists>c t'. t_recv ops t k = (Inr c, t') \<and> 1 \<le> length c \<and> int (length c) \<le> k"
  shows "\<exists>b t'. recv_exactly_loop ops t buf (int n) = Some (Inr (buf @ b), t') \<and> length b = n"
proof (induction n arbitrary: t buf rule: less_induct)
  case (less n)
  show ?case
  proof (cases "n = 0")
    case True
    then show ?thesis by (simp add: loop_zero)
  next
    case False
    then have pos: "0 < int n" by simp
    from contract [OF pos, of t] obtain c t' where
      r: "t_recv ops t (int n) = (Inr c, t')" and c1: "1 \<le> length c" and c2: "length c \<le> n"
      by auto
    have eq: "int n - int (length c) = int (n - length c)" using c2 by simp
    have lt: "n - length c < n" using c1 False by simp
    from less.IH [OF lt, of t' "buf @ c"] obtain b t'' where
      ih: "recv_exactly_loop ops t' (buf @ c) (int (n - length c)) = Some (Inr ((buf @ c) @ b), t'')"
      and lb: "length b = n - length c" by blast
    have nz: "int n \<noteq> 0" using False by simp
    have "recv_exactly_loop ops t buf (int n) =
          recv_exactly_loop ops t' (buf @ c) (int n - int (length c))"
      by (rule loop_step [OF nz r])
    also have "\<dots> = recv_exactly_loop ops t' (buf @ c) (int (n - length c))"
      by (simp only: eq)
    also have "\<dots> = Some (Inr (buf @ (c @ b)), t'')"
      using ih by simp
    finally have "recv_exactly_loop ops t buf (int n) = Some (Inr (buf @ (c @ b)), t'')" .
    moreover have "length (c @ b) = n" using lb c2 by simp
    ultimately show ?thesis by blast
  qed
qed

lemma loop_eof_aux:
  assumes eof: "\<And>t k. E t \<Longrightarrow> 0 < k \<Longrightarrow> \<exists>t'. t_recv ops t k = (Inr [], t') \<and> E t'"
    and run: "recv_exactly_loop ops t buf k = Some y"
  shows "\<not> (E t \<and> 0 < k)"
proof -
  have "ops = ops \<longrightarrow> \<not> (E t \<and> 0 < k)"
  proof (rule recv_exactly_loop.raw_induct
      [where P = "\<lambda>p t b k y. p = ops \<longrightarrow> \<not> (E t \<and> 0 < k)", OF _ run])
    fix f :: "'a transport \<Rightarrow> 'a \<Rightarrow> bytes \<Rightarrow> int \<Rightarrow> ((error + bytes) \<times> 'a) option"
    fix p' t b k y
    assume ih: "\<And>p t b k y. f p t b k = Some y \<Longrightarrow> p = ops \<longrightarrow> \<not> (E t \<and> 0 < k)"
    assume body: "(if k = 0 then Some (Inr b, t)
        else case t_recv p' t k of (Inl e, t') \<Rightarrow> Some (Inl e, t')
             | (Inr chunk, t') \<Rightarrow> f p' t' (b @ chunk) (k - int (length chunk))) = Some y"
    show "p' = ops \<longrightarrow> \<not> (E t \<and> 0 < k)"
    proof (intro impI notI)
      assume o: "p' = ops" and h: "E t \<and> 0 < k"
      from eof [of t k] h obtain t' where r: "t_recv ops t k = (Inr [], t')" and e': "E t'"
        by blast
      from body h r o have "f ops t' b k = Some y" by simp
      from ih [OF this] e' h show False by simp
    qed
  qed
  then show ?thesis by simp
qed

lemma loop_eof:
  assumes eof: "\<And>t k. E t \<Longrightarrow> 0 < k \<Longrightarrow> \<exists>t'. t_recv ops t k = (Inr [], t') \<and> E t'"
    and "E t" and "0 < k"
  shows "recv_exactly_loop ops t buf k = None"
proof (cases "recv_exactly_loop ops t buf k")
  case None
  then show ?thesis .
next
  case (Some y)
  from loop_eof_aux [of E ops t buf k y, OF eof Some] assms(2,3) show ?thesis by simp
qed


lemma stream_recv_chunk:
  assumes "\<not> is_closed s" and "0 < n"
  shows "\<exists>k. 1 \<le> k \<and> k \<le> n \<and>
           t_recv stream_ops s (int n) =
             (Inr (take k (inbuf s)), s\<lparr>inbuf := drop k (inbuf s), sched := tl (sched s)\<rparr>)"
proof (cases "sched s")
  case Nil
  with assms show ?thesis
    by (intro exI [of _ n]) (simp add: stream_ops_def stream_recv_def)
next
  case (Cons c cs)
  with assms show ?thesis
    by (intro exI [of _ "min n (Suc c)"]) (simp add: stream_ops_def stream_recv_def Let_def)
qed

lemma stream_take:
  "\<not> is_closed s \<Longrightarrow> n \<le> length (inbuf s) \<Longrightarrow>
   \<exists>s'. recv_exactly_loop stream_ops s buf (int n) = Some (Inr (buf @ take n (inbuf s)), s') \<and>
        inbuf s' = drop n (inbuf s) \<and> is_closed s' = is_closed s \<and>
        written s' = written s \<and> wfail s' = wfail s"
proof (induction n arbitrary: s buf rule: less_induct)
  case (less n)
  show ?case
  proof (cases "n = 0")
    case True
    then show ?thesis by (simp add: loop_zero)
  next
    case False
    then have pos: "0 < n" by simp
    from stream_recv_chunk [OF less.prems(1) pos] obtain k where
      k1: "1 \<le> k" and k2: "k \<le> n" and
      r: "t_recv stream_ops s (int n) =
            (Inr (take k (inbuf s)), s\<lparr>inbuf := drop k (inbuf s), sched := tl (sched s)\<rparr>)"
      by blast
    let ?s1 = "s\<lparr>inbuf := drop k (inbuf s), sched := tl (sched s)\<rparr>"
    have lc: "length (take k (inbuf s)) = k" using k2 less.prems(2) by simp
    have lt: "n - k < n" using k1 pos by simp
    have c1: "\<not> is_closed ?s1" using less.prems(1) by simp
    have l1: "n - k \<le> length (inbuf ?s1)" using less.prems(2) by simp
    from less.IH [OF lt c1 l1, of "buf @ take k (inbuf s)"] obtain s' where
      ih: "recv_exactly_loop stream_ops ?s1 (buf @ take k (inbuf s)) (int (n - k)) =
             Some (Inr ((buf @ take k (inbuf s)) @ take (n - k) (inbuf ?s1)), s')"
      and rest: "inbuf s' = drop (n - k) (inbuf ?s1)" "is_closed s' = is_closed ?s1"
        "written s' = written ?s1" "wfail s' = wfail ?s1"
      by blast
    have nz: "int n \<noteq> 0" using False by simp
    have tk: "take k (inbuf s) @ take (n - k) (drop k (inbuf s)) = take n (inbuf s)"
      using take_add [of k "n - k" "inbuf s"] k2 by simp
    have "recv_exactly_loop stream_ops s buf (int n) =
          recv_exactly_loop stream_ops ?s1 (buf @ take k (inbuf s))
            (int n - int (length (take k (inbuf s))))"
      by (rule loop_step [OF nz r])
    also have "int n - int (length (take k (inbuf s))) = int (n - k)"
      using k2 lc by simp
    also note ih
    finally have "recv_exactly_loop stream_ops s buf (int n) =
        Some (Inr (buf @ take n (inbuf s)), s')"
      using tk by simp
    moreover have "inbuf s' = drop n (inbuf s)" using rest(1) k2 by simp
    ultimately show ?thesis using rest(2-4) by auto
  qed
qed

lemma stream_eof:
  assumes "\<not> is_closed s" and "inbuf s = []" and "0 < k"
  shows "recv_exactly_loop stream_ops s buf k = None"
proof (rule loop_eof [where E = "\<lambda>s. \<not> is_closed s \<and> inbuf s = []"])
  fix t :: stream and k :: int
  assume "\<not> is_closed t \<and> inbuf t = []" and "0 < k"
  then show "\<exists>t'. t_recv stream_ops t k = (Inr [], t') \<and> \<not> is_closed t' \<and> inbuf t' = []"
    by (simp add: stream_ops_def stream_recv_def)
next
  show "\<not> is_closed s \<and> inbuf s = []" using assms by simp
next
  show "0 < k" by fact
qed

lemma stream_short:
  "\<not> is_closed s \<Longrightarrow> length (inbuf s) < n \<Longrightarrow>
   recv_exactly_loop stream_ops s buf (int n) = None"
proof (induction "length (inbuf s)" arbitrary: s buf n rule: less_induct)
  case less
  show ?case
  proof (cases "inbuf s = []")
    case True
    with less.prems show ?thesis by (intro stream_eof) simp_all
  next
    case False
    have pos: "0 < n" using less.prems(2) by simp
    from stream_recv_chunk [OF less.prems(1) pos] obtain k where
      k1: "1 \<le> k" and k2: "k \<le> n" and
      r: "t_recv stream_ops s (int n) =
            (Inr (take k (inbuf s)), s\<lparr>inbuf := drop k (inbuf s), sched := tl (sched s)\<rparr>)"
      by blast
    let ?s1 = "s\<lparr>inbuf := drop k (inbuf s), sched := tl (sched s)\<rparr>"
    let ?c = "take k (inbuf s)"
    have lc1: "1 \<le> length ?c" using k1 False by (cases "inbuf s") simp_all
    have lc2: "length ?c \<le> length (inbuf s)" by simp
    have len1: "length (inbuf ?s1) = length (inbuf s) - length ?c" by simp
    have m: "length (inbuf ?s1) < length (inbuf s)" using lc1 lc2 len1 by linarith
    have c1: "\<not> is_closed ?s1" using less.prems(1) by simp
    have l1: "length (inbuf ?s1) < n - length ?c" using less.prems(2) lc2 len1 by linarith
    have nz: "int n \<noteq> 0" using pos by simp
    have "recv_exactly_loop stream_ops s buf (int n) =
          recv_exactly_loop stream_ops ?s1 (buf @ ?c) (int n - int (length ?c))"
      by (rule loop_step [OF nz r])
    also have "int n - int (length ?c) = int (n - length ?c)"
      using lc2 less.prems(2) by simp
    also have "recv_exactly_loop stream_ops ?s1 (buf @ ?c) (int (n - length ?c)) = None"
      by (rule less.hyps [OF m c1 l1])
    finally show ?thesis .
  qed
qed

subsection \<open>Frames on a byte stream\<close>

lemma stream_send:
  assumes d: "dumps cdc v = Inr bs" and p: "struct_pack_II op (int (length bs)) = Inr h"
    and c: "\<not> is_closed s" and w: "\<not> wfail s"
  shows "send stream_ops cdc s v op = (Inr (), s\<lparr>written := written s @ [h, bs]\<rparr>)"
  using assms by (simp add: send_def stream_ops_def stream_write_def)

lemma stream_recv_frame:
  assumes p: "struct_pack_II op (int (length bs)) = Inr h"
    and c: "\<not> is_closed r" and i: "inbuf r = h @ bs @ rest"
  shows "\<exists>r'. recv_header stream_ops r = Some (Inr (op, int (length bs)), r') \<and>
          \<not> is_closed r' \<and> inbuf r' = bs @ rest"
proof -
  from unpack_pack [OF p] have u: "struct_unpack_II h = Inr (op, int (length bs))"
    and l: "length h = 8" by simp_all
  have le: "8 \<le> length (inbuf r)" using i l by simp
  from stream_take [OF c le, of "[]"] obtain r' where
    a: "recv_exactly_loop stream_ops r [] (int 8) = Some (Inr ([] @ take 8 (inbuf r)), r')"
    and b: "inbuf r' = drop 8 (inbuf r)" and cl: "is_closed r' = is_closed r"
    by blast
  have t: "take 8 (inbuf r) = h" using i l by simp
  have dr: "drop 8 (inbuf r) = bs @ rest" using i l by simp
  have "recv_header stream_ops r = Some (Inr (op, int (length bs)), r')"
    using a t u by (simp add: recv_header_def recv_exactly_def)
  then show ?thesis using b dr cl c by auto
qed

lemma stream_recv_ok:
  assumes p: "struct_pack_II op (int (length bs)) = Inr h"
    and c: "\<not> is_closed r" and i: "inbuf r = h @ bs @ rest"
    and lo: "loads cdc bs = Inr v"
  shows "\<exists>r'. recv stream_ops cdc r = Some (Inr (op, v), r') \<and> inbuf r' = rest"
proof -
  from stream_recv_frame [OF p c i] obtain r1 where
    h: "recv_header stream_ops r = Some (Inr (op, int (length bs)), r1)"
    and c1: "\<not> is_closed r1" and i1: "inbuf r1 = bs @ rest" by blast
  have le: "length bs \<le> length (inbuf r1)" using i1 by simp
  from stream_take [OF c1 le, of "[]"] obtain r2 where
    a: "recv_exactly_loop stream_ops r1 [] (int (length bs)) =
          Some (Inr ([] @ take (length bs) (inbuf r1)), r2)"
    and b: "inbuf r2 = drop (length bs) (inbuf r1)" by blast
  have "recv stream_ops cdc r = Some (Inr (op, v), r2)"
    using h a i1 lo by (simp add: recv_def recv_exactly_def)
  moreover have "inbuf r2 = rest" using b i1 by simp
  ultimately show ?thesis by blast
qed

lemma stream_recv_header:
  assumes u: "struct_unpack_II h = Inr (op, len)"
    and c: "\<not> is_closed r" and i: "inbuf r = h @ tail"
  shows "\<exists>r'. recv_header stream_ops r = Some (Inr (op, len), r') \<and>
          \<not> is_closed r' \<and> inbuf r' = tail"
proof -
  have l: "length h = 8"
    using u by (simp add: struct_unpack_II_def split: if_splits)
  have le: "8 \<le> length (inbuf r)" using i l by simp
  from stream_take [OF c le, of "[]"] obtain r' where
    a: "recv_exactly_loop stream_ops r [] (int 8) = Some (Inr ([] @ take 8 (inbuf r)), r')"
    and b: "inbuf r' = drop 8 (inbuf r)" and cl: "is_closed r' = is_closed r"
    by blast
  have t: "take 8 (inbuf r) = h" using i l by simp
  have dr: "drop 8 (inbuf r) = tail" using i l by simp
  have "recv_header stream_ops r = Some (Inr (op, len), r')"
    using a t u by (simp add: recv_header_def recv_exactly_def)
  then show ?thesis using b dr cl c by auto
qed

lemma stream_header_short:
  assumes c: "\<not> is_closed r" and l: "length (inbuf r) < 8"
  shows "recv_header stream_ops r = None"
proof -
  from stream_short [OF c l, of "[]"]
  have "recv_exactly_loop stream_ops r [] (int 8) = None" .
  then show ?thesis by (simp add: recv_header_def recv_exactly_def)
qed

lemma stream_frame_truncated:
  assumes p: "struct_pack_II op (int (length bs)) = Inr h"
    and c: "\<not> is_closed r" and i: "inbuf r = take m (h @ bs)" and m: "m < length (h @ bs)"
  shows "recv_header stream_ops r = None \<or>
         (\<exists>r1. recv_header stream_ops r = Some (Inr (op, int (length bs)), r1) \<and>
               recv_exactly stream_ops r1 (int (length bs)) = None)"
proof (cases "m < 8")
  case True
  have "length (inbuf r) < 8" using i m True by simp
  from stream_header_short [OF c this] show ?thesis by simp
next
  case False
  from unpack_pack [OF p] have u: "struct_unpack_II h = Inr (op, int (length bs))"
    and l: "length h = 8" by simp_all
  have i': "inbuf r = h @ take (m - 8) bs" using i l False by simp
  from stream_recv_header [OF u c i'] obtain r1 where
    h: "recv_header stream_ops r = Some (Inr (op, int (length bs)), r1)"
    and c1: "\<not> is_closed r1" and i1: "inbuf r1 = take (m - 8) bs" by blast
  have "length (inbuf r1) < length bs" using i1 m l False by simp
  from stream_short [OF c1 this, of "[]"]
  have "recv_exactly stream_ops r1 (int (length bs)) = None"
    by (simp add: recv_exactly_def)
  with h show ?thesis by blast
qed

lemma stream_recv_truncated:
  assumes p: "struct_pack_II op (int (length bs)) = Inr h"
    and c: "\<not> is_closed r" and i: "inbuf r = take m (h @ bs)" and m: "m < length (h @ bs)"
  shows "recv stream_ops cdc r = None"
  using stream_frame_truncated [OF p c i m] by (auto simp: recv_def)

lemma stream_set_activity_truncated:
  assumes ck: "check_texts a = Inr ()"
    and d: "dumps cdc (envelope pid nonce a) = Inr x" and lx: "length x < 4294967296"
    and c: "\<not> is_closed (conn self)" and w: "\<not> wfail (conn self)"
    and p: "struct_pack_II op (int (length bs)) = Inr h"
    and i: "inbuf (conn self) = take m (h @ bs)" and m: "m < length (h @ bs)"
  shows "set_activity stream_ops cdc pid nonce self a = None"
proof -
  obtain hx where px: "struct_pack_II OP_FRAME (int (length x)) = Inr hx"
    using lx by (simp add: struct_pack_II_def OP_FRAME_def)
  let ?s1 = "(conn self)\<lparr>written := written (conn self) @ [hx, x]\<rparr>"
  have s: "send stream_ops cdc (conn self) (envelope pid nonce a) OP_FRAME = (Inr (), ?s1)"
    by (rule stream_send [OF d px c w])
  have c1: "\<not> is_closed ?s1" using c by simp
  have i1: "inbuf ?s1 = take m (h @ bs)" using i by simp
  from stream_frame_truncated [OF p c1 i1 m] show ?thesis
    by (auto simp: set_activity_def ck s)
qed

subsection \<open>Closing\<close>

lemma close_state:
  "snd (close ops cdc t) = snd (t_close ops (snd (send ops cdc t (PDict []) OP_CLOSE)))"
  by (simp add: close_def split: prod.splits sum.splits)

lemma stream_close_closed: "is_closed (snd (close stream_ops cdc s))"
  by (simp add: close_state) (simp add: stream_ops_def stream_close_def)

lemma stream_send_wfail:
  assumes d: "dumps cdc v = Inr bs" and p: "struct_pack_II op (int (length bs)) = Inr h"
    and w: "is_closed s \<or> wfail s"
  shows "send stream_ops cdc s v op = (Inl (OSError ''write''), s)"
  using assms by (auto simp: send_def stream_ops_def stream_write_def)

subsection \<open>The handshake\<close>

text \<open>
  What \<^verbatim>\<open>_do_handshake\<close> does with a reply \<open>(ret_op, d)\<close>: it returns exactly when the op
  code is FRAME and the body has \<^verbatim>\<open>cmd == 'DISPATCH'\<close> and \<^verbatim>\<open>evt == 'READY'\<close>; for an op
  code other than FRAME and CLOSE, and for a FRAME whose two fields are there and differ,
  it raises \<^verbatim>\<open>RuntimeError\<close> with the body; for CLOSE it runs \<open>close\<close> first, and the
  \<^verbatim>\<open>RuntimeError\<close> follows when \<open>close\<close> has returned.
\<close>

lemma handshake_ready_iff:
  "handshake_ready ret_op d = Inr True \<longleftrightarrow>
     ret_op = OP_FRAME \<and> py_getitem d ''cmd'' = Inr (PStr ''DISPATCH'') \<and>
     py_getitem d ''evt'' = Inr (PStr ''READY'')"
  by (auto simp: handshake_ready_def split: sum.splits if_splits)

lemma handshake_ready_not_frame: "ret_op \<noteq> OP_FRAME \<Longrightarrow> handshake_ready ret_op d = Inr False"
  by (simp add: handshake_ready_def)

lemma do_handshake_success_iff:
  assumes "send_recv ops cdc t (PDict [(''v'', PInt 1), (''client_id'', PStr cid)]) OP_HANDSHAKE =
             Some (Inr (ret_op, d), t1)"
  shows "do_handshake ops cdc cid t = Some (Inr (), t') \<longleftrightarrow>
           t' = t1 \<and> ret_op = OP_FRAME \<and> py_getitem d ''cmd'' = Inr (PStr ''DISPATCH'') \<and>
           py_getitem d ''evt'' = Inr (PStr ''READY'')"
proof -
  note R = handshake_ready_iff [of ret_op d]
  show ?thesis
  proof (cases "handshake_ready ret_op d")
    case (Inl e)
    with R have "\<not> (ret_op = OP_FRAME \<and> py_getitem d ''cmd'' = Inr (PStr ''DISPATCH'') \<and>
           py_getitem d ''evt'' = Inr (PStr ''READY''))" by simp
    then show ?thesis using Inl assms by (auto simp: do_handshake_def)
  next
    case (Inr b)
    show ?thesis
    proof (cases b)
      case True
      with Inr have h: "handshake_ready ret_op d = Inr True" by simp
      with R have "ret_op = OP_FRAME \<and> py_getitem d ''cmd'' = Inr (PStr ''DISPATCH'') \<and>
           py_getitem d ''evt'' = Inr (PStr ''READY'')" by simp
      then show ?thesis using assms h by (auto simp: do_handshake_def)
    next
      case False
      with Inr have h: "handshake_ready ret_op d = Inr False" by simp
      with R have "\<not> (ret_op = OP_FRAME \<and> py_getitem d ''cmd'' = Inr (PStr ''DISPATCH'') \<and>
           py_getitem d ''evt'' = Inr (PStr ''READY''))" by simp
      then show ?thesis using assms h
        by (auto simp: do_handshake_def split: prod.splits sum.splits)
    qed
  qed
qed

lemma do_handshake_other:
  assumes "send_recv ops cdc t (PDict [(''v'', PInt 1), (''client_id'', PStr cid)]) OP_HANDSHAKE =
             Some (Inr (ret_op, d), t1)"
    and "ret_op \<noteq> OP_FRAME" and "ret_op \<noteq> OP_CLOSE"
  shows "do_handshake ops cdc cid t = Some (Inl (RuntimeError d), t1)"
  using assms by (simp add: do_handshake_def handshake_ready_not_frame)

lemma do_handshake_close:
  assumes "send_recv ops cdc t (PDict [(''v'', PInt 1), (''client_id'', PStr cid)]) OP_HANDSHAKE =
             Some (Inr (OP_CLOSE, d), t1)"
  shows "\<exists>e. do_handshake ops cdc cid t = Some (Inl e, snd (close ops cdc t1)) \<and>
             (fst (close ops cdc t1) = Inr () \<longrightarrow> e = RuntimeError d)"
proof -
  have "handshake_ready OP_CLOSE d = Inr False"
    by (rule handshake_ready_not_frame) (simp add: OP_CLOSE_def OP_FRAME_def)
  then show ?thesis using assms
    by (cases "close ops cdc t1") (auto simp: do_handshake_def split: sum.splits)
qed

lemma do_handshake_mismatch:
  assumes "send_recv ops cdc t (PDict [(''v'', PInt 1), (''client_id'', PStr cid)]) OP_HANDSHAKE =
             Some (Inr (OP_FRAME, d), t1)"
    and "py_getitem d ''cmd'' = Inr c" and "py_getitem d ''evt'' = Inr ev"
    and "c \<noteq> PStr ''DISPATCH'' \<or> ev \<noteq> PStr ''READY''"
  shows "do_handshake ops cdc cid t = Some (Inl (RuntimeError d), t1)"
  using assms by (auto simp: do_handshake_def handshake_ready_def OP_FRAME_def OP_CLOSE_def)

lemma do_handshake_missing_key:
  assumes "send_recv ops cdc t (PDict [(''v'', PInt 1), (''client_id'', PStr cid)]) OP_HANDSHAKE =
             Some (Inr (OP_FRAME, PDict kvs), t1)"
    and "map_of kvs ''cmd'' = None"
  shows "do_handshake ops cdc cid t = Some (Inl (KeyError ''cmd''), t1)"
  using assms by (simp add: do_handshake_def handshake_ready_def)

lemma stream_send_recv:
  assumes d: "dumps cdc v = Inr x" and lx: "length x < 4294967296"
    and o: "0 \<le> op" "op < 4294967296"
    and c: "\<not> is_closed s" and w: "\<not> wfail s"
    and p: "struct_pack_II rop (int (length bs)) = Inr h"
    and i: "inbuf s = h @ bs @ rest" and lo: "loads cdc bs = Inr body"
  shows "\<exists>s'. send_recv stream_ops cdc s v op = Some (Inr (rop, body), s') \<and> inbuf s' = rest"
proof -
  obtain hx where px: "struct_pack_II op (int (length x)) = Inr hx"
    using lx o by (simp add: struct_pack_II_def)
  let ?s1 = "s\<lparr>written := written s @ [hx, x]\<rparr>"
  have s: "send stream_ops cdc s v op = (Inr (), ?s1)"
    by (rule stream_send [OF d px c w])
  have c1: "\<not> is_closed ?s1" using c by simp
  have i1: "inbuf ?s1 = h @ bs @ rest" using i by simp
  from stream_recv_ok [OF p c1 i1 lo] show ?thesis
    by (simp add: send_recv_def s)
qed

lemma json_text_tuple: "json_text (PTuple xs) = json_text (PList xs)"
  by simp

lemma pack_header:
  assumes "0 \<le> op" and "op < 4294967296" and "n < 4294967296"
  shows "struct_pack_II op (int n) =
     Inr (map of_nat [nat op, nat op div 256, nat op div 65536, nat op div 16777216,
                      n, n div 256, n div 65536, n div 16777216])"
  using assms by (simp add: struct_pack_II_def le32_def)

subsection \<open>Reads that return too much\<close>

lemma loop_negative_aux:
  assumes nr: "\<And>u j. \<exists>c u'. t_recv ops u j = (Inr c, u')"
    and run: "recv_exactly_loop ops t buf k = Some y"
  shows "\<not> k < 0"
proof -
  have "ops = ops \<longrightarrow> \<not> k < 0"
  proof (rule recv_exactly_loop.raw_induct
      [where P = "\<lambda>p t b k y. p = ops \<longrightarrow> \<not> k < 0", OF _ run])
    fix f :: "'a transport \<Rightarrow> 'a \<Rightarrow> bytes \<Rightarrow> int \<Rightarrow> ((error + bytes) \<times> 'a) option"
    fix p' t b k y
    assume ih: "\<And>p t b k y. f p t b k = Some y \<Longrightarrow> p = ops \<longrightarrow> \<not> k < 0"
    assume body: "(if k = 0 then Some (Inr b, t)
        else case t_recv p' t k of (Inl e, t') \<Rightarrow> Some (Inl e, t')
             | (Inr chunk, t') \<Rightarrow> f p' t' (b @ chunk) (k - int (length chunk))) = Some y"
    show "p' = ops \<longrightarrow> \<not> k < 0"
    proof (intro impI notI)
      assume o: "p' = ops" and h: "k < 0"
      from nr [of t k] obtain c t' where r: "t_recv ops t k = (Inr c, t')" by blast
      from body h r o have "f ops t' (b @ c) (k - int (length c)) = Some y" by simp
      from ih [OF this] have "\<not> k - int (length c) < 0" by simp
      with h show False by simp
    qed
  qed
  then show ?thesis by simp
qed

lemma loop_negative:
  assumes nr: "\<And>u j. \<exists>c u'. t_recv ops u j = (Inr c, u')" and "k < 0"
  shows "recv_exactly_loop ops t buf k = None"
proof (cases "recv_exactly_loop ops t buf k")
  case None
  then show ?thesis .
next
  case (Some y)
  from loop_negative_aux [of ops t buf k y, OF nr Some] assms(2) show ?thesis by simp
qed

lemma loop_overlong:
  assumes nr: "\<And>u j. \<exists>c u'. t_recv ops u j = (Inr c, u')"
    and "0 < k" and r: "t_recv ops t k = (Inr c, t')" and "k < int (length c)"
  shows "recv_exactly_loop ops t buf k = None"
proof -
  have nz: "k \<noteq> 0" using assms(2) by simp
  have neg: "k - int (length c) < 0" using assms(4) by simp
  have "recv_exactly_loop ops t buf k =
        recv_exactly_loop ops t' (buf @ c) (k - int (length c))"
    by (rule loop_step [OF nz r])
  also have "\<dots> = None" by (rule loop_negative [OF nr neg])
  finally show ?thesis .
qed

subsection \<open>The length checks of \<^verbatim>\<open>set_activity\<close>\<close>

lemma set_activity_invalid:
  "check_texts a = Inl e \<Longrightarrow> set_activity ops cdc pid nonce self a = Some (Inl e, self)"
  by (simp add: set_activity_def)


lemma check_texts_small_short:
  "py_len (large_text a) = Inr n \<Longrightarrow> 3 < n \<Longrightarrow> small_text a = Some s \<Longrightarrow> length s \<le> 3 \<Longrightarrow>
   check_texts a = Inl (Error small_text_msg)"
  by (simp add: check_texts_def py_len_def)



subsection \<open>The activity dictionary\<close>

lemma activity_shape:
  "activity a =
     (if state a = None \<or> state a = Some [] \<or> state a = Some ''null'' then []
      else [(''state'', py_of (state a))]) @
     (if details a = None \<or> details a = Some [] \<or> details a = Some ''null'' then []
      else [(''details'', py_of (details a))]) @
     (if timestamp a = PNone then [] else [(''timestamps'', PDict [(''start'', timestamp a)])]) @
     [(''assets'', PDict
        ((if small_text a = None \<or> small_text a = Some [] \<or> small_text a = Some ''null''
          then [] else [(''small_text'', py_of (small_text a))]) @
         (if large_text a = None \<or> large_text a = Some [] \<or> large_text a = Some ''null''
          then [] else [(''large_text'', py_of (large_text a))]) @
         [(''small_image'', PStr (py_str (small_image a))),
          (''large_image'', PStr (py_str (large_image a)))]))] @
     (if buttons a = PNone then [] else [(''buttons'', buttons a)])"
proof -
  obtain P1 where p1: "P1 = (state a = None \<or> state a = Some [] \<or> state a = Some ''null'')"
    by simp
  obtain P2 where p2: "P2 = (details a = None \<or> details a = Some [] \<or> details a = Some ''null'')"
    by simp
  obtain P3 where p3: "P3 = (small_text a = None \<or> small_text a = Some [] \<or>
      small_text a = Some ''null'')"
    by simp
  obtain P4 where p4: "P4 = (large_text a = None \<or> large_text a = Some [] \<or>
      large_text a = Some ''null'')"
    by simp
  obtain P5 where p5: "P5 = (timestamp a = PNone)" by simp
  obtain P6 where p6: "P6 = (buttons a = PNone)" by simp
  show ?thesis
    unfolding activity_def Let_def p1 [symmetric] p2 [symmetric] p3 [symmetric]
      p4 [symmetric] p5 [symmetric] p6 [symmetric]
    by (cases P1; cases P2; cases P3; cases P4; cases P5; cases P6;
        simp add: dict_pop_def assets_pop_def)
qed

subsection \<open>The connection loops\<close>

lemma win_loop_first:
  assumes "\<forall>j\<in>set xs. \<exists>m. os_open (pipe_path j) = Inl (OSError m)"
    and "os_open (pipe_path k) = Inr f"
  shows "win_connect_loop os_open (xs @ k # ys) =
    (Inr (f, pipe_path k), map (\<lambda>j. Refused (pipe_path j)) xs @ [Opened (pipe_path k)])"
  using assms by (induction xs) (auto simp: Let_def)

lemma win_loop_all_fail:
  assumes "\<forall>j\<in>set xs. \<exists>m. os_open (pipe_path j) = Inl (OSError m)"
  shows "win_connect_loop os_open xs = (Inl DiscordNotOpened, map (\<lambda>j. Refused (pipe_path j)) xs)"
  using assms by (induction xs) (auto simp: Let_def)

lemma win_loop_log:
  "length (snd (win_connect_loop os_open xs)) \<le> length xs \<and>
   map attempt_path (snd (win_connect_loop os_open xs)) =
     map pipe_path (take (length (snd (win_connect_loop os_open xs))) xs)"
  by (induction xs) (auto simp: Let_def split: sum.splits error.splits prod.splits)

lemma unix_loop_first:
  assumes "\<forall>j\<in>set xs. str_format pat j = Inr (path j) \<and>
             (\<not> path_exists (path j) \<or> (\<exists>m. sock_connect (path j) = Inl (OSError m)))"
    and "str_format pat k = Inr (path k)" and "path_exists (path k)"
    and "sock_connect (path k) = Inr u"
  shows "unix_connect_loop str_format path_exists sock_connect pat (xs @ k # ys) =
    (Inr (path k),
     map (\<lambda>j. if path_exists (path j) then Refused (path j) else Absent (path j)) xs @
       [Opened (path k)])"
  using assms by (induction xs) (auto simp: Let_def)

lemma unix_loop_all_fail:
  assumes "\<forall>j\<in>set xs. str_format pat j = Inr (path j) \<and>
             (\<not> path_exists (path j) \<or> (\<exists>m. sock_connect (path j) = Inl (OSError m)))"
  shows "unix_connect_loop str_format path_exists sock_connect pat xs =
    (Inl DiscordNotOpened,
     map (\<lambda>j. if path_exists (path j) then Refused (path j) else Absent (path j)) xs)"
  using assms by (induction xs) (auto simp: Let_def)

lemma unix_loop_log:
  assumes "\<forall>j\<in>set xs. str_format pat j = Inr (path j)"
  shows "length (snd (unix_connect_loop str_format path_exists sock_connect pat xs)) \<le> length xs \<and>
   map attempt_path (snd (unix_connect_loop str_format path_exists sock_connect pat xs)) =
     map path (take (length (snd (unix_connect_loop str_format path_exists sock_connect pat xs))) xs)"
  using assms by (induction xs) (auto split: sum.splits error.splits prod.splits)

lemma upt_split: "k < n \<Longrightarrow> [0..<n] = [0..<k] @ k # [Suc k..<n]"
  by (metis upt_conv_Cons upt_add_eq_append le_add_diff_inverse less_imp_le_nat zero_le)

lemma take_upt0: "m \<le> n \<Longrightarrow> take m [0..<n] = [0..<m]"
  by simp

lemma upt_0_3: "[0..<3] = [0, 1, 2]"
  by code_simp

lemma upt_0_10: "[0..<10] = [0, 1, 2, 3, 4, 5, 6, 7, 8, 9]"
  by code_simp

lemma less_3_cases: "(j :: nat) < 3 \<Longrightarrow> j = 0 \<or> j = 1 \<or> j = 2"
  by arith

lemma pipe_path_digits:
  "pipe_path 0 = [CHR 0x5C, CHR 0x5C] @ ''?'' @ [CHR 0x5C] @ ''pipe'' @ [CHR 0x5C] @ ''discord-ipc-0''"
  "pipe_path 1 = [CHR 0x5C, CHR 0x5C] @ ''?'' @ [CHR 0x5C] @ ''pipe'' @ [CHR 0x5C] @ ''discord-ipc-1''"
  "pipe_path (Suc 0) =
     [CHR 0x5C, CHR 0x5C] @ ''?'' @ [CHR 0x5C] @ ''pipe'' @ [CHR 0x5C] @ ''discord-ipc-1''"
  "pipe_path 2 = [CHR 0x5C, CHR 0x5C] @ ''?'' @ [CHR 0x5C] @ ''pipe'' @ [CHR 0x5C] @ ''discord-ipc-2''"
  "pipe_path 3 = [CHR 0x5C, CHR 0x5C] @ ''?'' @ [CHR 0x5C] @ ''pipe'' @ [CHR 0x5C] @ ''discord-ipc-3''"
  by (simp_all add: pipe_path_def)

lemma get_pipe_pattern_default: "get_pipe_pattern Map.empty = ''/tmp/discord-ipc-{}''"
  by (simp add: get_pipe_pattern_def os_path_join_def)

section \<open>Claims\<close>

text \<open>
  Claim C8. \<^verbatim>\<open>_recv_exactly(n)\<close> returns exactly \<open>n\<close> bytes however \<^verbatim>\<open>_recv\<close> splits the
  data. For any transport whose reads hand over at least one byte and at most what was
  asked for, the loop ends and returns \<open>n\<close> bytes. On a byte stream that holds at least
  \<open>m\<close> bytes it returns the first \<open>m\<close> of them and leaves the others, whatever the
  schedule of chunk sizes is, also one byte per read.
\<close>

theorem recv_exactly_exact:
  "((\<forall>t k. 0 < k \<longrightarrow>
       (\<exists>c t'. t_recv ops t k = (Inr c, t') \<and> 1 \<le> length c \<and> int (length c) \<le> k)) \<longrightarrow>
    (\<exists>buf t'. recv_exactly ops t (int n) = Some (Inr buf, t') \<and> length buf = n)) \<and>
   (\<not> is_closed s \<and> m \<le> length (inbuf s) \<longrightarrow>
    (\<exists>s'. recv_exactly stream_ops s (int m) = Some (Inr (take m (inbuf s)), s') \<and>
          inbuf s' = drop m (inbuf s)))"
proof (intro conjI impI)
  assume "\<forall>t k. 0 < k \<longrightarrow>
       (\<exists>c t'. t_recv ops t k = (Inr c, t') \<and> 1 \<le> length c \<and> int (length c) \<le> k)"
  then have "\<And>t k. 0 < k \<Longrightarrow>
       \<exists>c t'. t_recv ops t k = (Inr c, t') \<and> 1 \<le> length c \<and> int (length c) \<le> k"
    by blast
  from loop_contract [of ops t "[]" n, OF this]
  show "\<exists>buf t'. recv_exactly ops t (int n) = Some (Inr buf, t') \<and> length buf = n"
    by (simp add: recv_exactly_def)
next
  assume "\<not> is_closed s \<and> m \<le> length (inbuf s)"
  then have a: "\<not> is_closed s" and b: "m \<le> length (inbuf s)" by simp_all
  from stream_take [OF a b, of "[]"]
  show "\<exists>s'. recv_exactly stream_ops s (int m) = Some (Inr (take m (inbuf s)), s') \<and>
          inbuf s' = drop m (inbuf s)"
    by (auto simp: recv_exactly_def)
qed

theorem recv_exactly_exact_witness:
  "(\<exists>buf t'. recv_exactly drip_ops 0 (int 3) = Some (Inr buf, t') \<and> length buf = 3) \<and>
   \<not> is_closed \<lparr>inbuf = [1, 2, 3, 4], sched = [0, 0, 0], written = [], wfail = False,
                  is_closed = False\<rparr> \<and>
   (\<exists>s'. recv_exactly stream_ops
           \<lparr>inbuf = [1, 2, 3, 4], sched = [0, 0, 0], written = [], wfail = False,
            is_closed = False\<rparr> (int 3) = Some (Inr [1, 2, 3], s') \<and>
         inbuf s' = [4])"
  using recv_exactly_exact [of drip_ops 0 3
      "\<lparr>inbuf = [1, 2, 3, 4], sched = [0, 0, 0], written = [], wfail = False,
        is_closed = False\<rparr>" 3]
  by (simp add: drip_ops_def)

text \<open>
  Claim C6. \<open>close\<close> sends a CLOSE frame with the payload \<^verbatim>\<open>{}\<close> and then, whether the
  send returned or raised, calls \<^verbatim>\<open>_close\<close>: the state \<open>close\<close> leaves is the one \<^verbatim>\<open>_close\<close>
  makes of the state after the send. On a byte stream the result is a closed stream in
  every case; when the writes succeed the header and the payload have been written
  first, and when they fail the error of the write is the one raised.
\<close>

theorem close_always_closes:
  "snd (close ops cdc t) = snd (t_close ops (snd (send ops cdc t (PDict []) OP_CLOSE))) \<and>
   is_closed (snd (close stream_ops cdc s)) \<and>
   (dumps cdc (PDict []) = Inr bs \<and> struct_pack_II OP_CLOSE (int (length bs)) = Inr h \<and>
    \<not> is_closed s \<and> \<not> wfail s \<longrightarrow>
    close stream_ops cdc s = (Inr (), s\<lparr>written := written s @ [h, bs], is_closed := True\<rparr>)) \<and>
   (dumps cdc (PDict []) = Inr bs \<and> struct_pack_II OP_CLOSE (int (length bs)) = Inr h \<and>
    \<not> is_closed s \<and> wfail s \<longrightarrow>
    close stream_ops cdc s = (Inl (OSError ''write''), s\<lparr>is_closed := True\<rparr>))"
proof (intro conjI impI)
  show "snd (close ops cdc t) = snd (t_close ops (snd (send ops cdc t (PDict []) OP_CLOSE)))"
    by (rule close_state)
next
  show "is_closed (snd (close stream_ops cdc s))" by (rule stream_close_closed)
next
  assume "dumps cdc (PDict []) = Inr bs \<and> struct_pack_II OP_CLOSE (int (length bs)) = Inr h \<and>
    \<not> is_closed s \<and> \<not> wfail s"
  then have "send stream_ops cdc s (PDict []) OP_CLOSE = (Inr (), s\<lparr>written := written s @ [h, bs]\<rparr>)"
    using stream_send [of cdc "PDict []" bs OP_CLOSE h s] by blast
  then show "close stream_ops cdc s = (Inr (), s\<lparr>written := written s @ [h, bs], is_closed := True\<rparr>)"
    by (simp add: close_def stream_ops_def stream_close_def)
next
  assume "dumps cdc (PDict []) = Inr bs \<and> struct_pack_II OP_CLOSE (int (length bs)) = Inr h \<and>
    \<not> is_closed s \<and> wfail s"
  then have "send stream_ops cdc s (PDict []) OP_CLOSE = (Inl (OSError ''write''), s)"
    using stream_send_wfail [of cdc "PDict []" bs OP_CLOSE h s] by blast
  then show "close stream_ops cdc s = (Inl (OSError ''write''), s\<lparr>is_closed := True\<rparr>)"
    by (simp add: close_def stream_ops_def stream_close_def)
qed

theorem close_always_closes_witness:
  "close stream_ops (table_codec [(PDict [], ''{}'')])
     \<lparr>inbuf = [], sched = [], written = [], wfail = False, is_closed = False\<rparr> =
     (Inr (), \<lparr>inbuf = [], sched = [], written = [[2, 0, 0, 0, 2, 0, 0, 0], [123, 125]],
               wfail = False, is_closed = True\<rparr>) \<and>
   close stream_ops (table_codec [(PDict [], ''{}'')])
     \<lparr>inbuf = [], sched = [], written = [], wfail = True, is_closed = False\<rparr> =
     (Inl (OSError ''write''),
      \<lparr>inbuf = [], sched = [], written = [], wfail = True, is_closed = True\<rparr>)"
proof -
  let ?cdc = "table_codec [(PDict [], ''{}'')]"
  let ?bs = "[123, 125] :: bytes"
  let ?h = "[2, 0, 0, 0, 2, 0, 0, 0] :: bytes"
  have d: "dumps ?cdc (PDict []) = Inr ?bs" by (simp add: table_codec_def ascii_def)
  have p: "struct_pack_II OP_CLOSE (int (length ?bs)) = Inr ?h"
    by (simp add: struct_pack_II_def le32_def OP_CLOSE_def)
  note T = close_always_closes [where cdc = ?cdc and bs = ?bs and h = ?h]
  have A: "close stream_ops ?cdc
     \<lparr>inbuf = [], sched = [], written = [], wfail = False, is_closed = False\<rparr> =
     (Inr (), \<lparr>inbuf = [], sched = [], written = [?h, ?bs], wfail = False, is_closed = True\<rparr>)"
    using T [where s = "\<lparr>inbuf = [], sched = [], written = [], wfail = False, is_closed = False\<rparr>",
        THEN conjunct2, THEN conjunct2, THEN conjunct1] d p by simp
  have B: "close stream_ops ?cdc
     \<lparr>inbuf = [], sched = [], written = [], wfail = True, is_closed = False\<rparr> =
     (Inl (OSError ''write''),
      \<lparr>inbuf = [], sched = [], written = [], wfail = True, is_closed = True\<rparr>)"
    using T [where s = "\<lparr>inbuf = [], sched = [], written = [], wfail = True, is_closed = False\<rparr>",
        THEN conjunct2, THEN conjunct2, THEN conjunct2] d p by simp
  show ?thesis using A B by simp
qed

text \<open>
  Claim C2. The handshake returns if and only if the reply is a FRAME with
  \<^verbatim>\<open>cmd == 'DISPATCH'\<close> and \<^verbatim>\<open>evt == 'READY'\<close>, and every other reply raises an error that
  carries the payload. The code at a reply it can receive: the handshake is sent, and the
  reply is a FRAME whose body is the empty object \<^verbatim>\<open>{}\<close>. The subscript \<^verbatim>\<open>ret_data['cmd']\<close>
  raises \<^verbatim>\<open>KeyError\<close>, so the error that leaves \<^verbatim>\<open>_do_handshake\<close> is not the
  \<^verbatim>\<open>RuntimeError\<close> that carries the payload.
\<close>

theorem handshake_frame_without_cmd:
  \<open>\<exists>s'. do_handshake stream_ops
      (table_codec [(PDict [(''v'', PInt 1), (''client_id'', PStr ''42'')],
                     ''{"v":1,"client_id":"42"}''),
                    (PDict [], ''{}'')])
      ''42''
      \<lparr>inbuf = [1, 0, 0, 0, 2, 0, 0, 0, 123, 125], sched = [], written = [], wfail = False,
       is_closed = False\<rparr> = Some (Inl (KeyError ''cmd''), s') \<and>
     Inl (KeyError ''cmd'') \<noteq> (Inl (RuntimeError (PDict [])) :: error + unit)\<close>
proof -
  let ?cdc = \<open>table_codec [(PDict [(''v'', PInt 1), (''client_id'', PStr ''42'')],
                     ''{"v":1,"client_id":"42"}''),
                    (PDict [], ''{}'')]\<close>
  let ?s = "\<lparr>inbuf = [1, 0, 0, 0, 2, 0, 0, 0, 123, 125], sched = [], written = [],
            wfail = False, is_closed = False\<rparr>"
  let ?bs = "[123, 125] :: bytes"
  let ?h = "[1, 0, 0, 0, 2, 0, 0, 0] :: bytes"
  obtain x where d: "dumps ?cdc (PDict [(''v'', PInt 1), (''client_id'', PStr ''42'')]) = Inr x"
    and lx: "length x < 4294967296"
    by (simp add: table_codec_def ascii_def)
  have p: "struct_pack_II OP_FRAME (int (length ?bs)) = Inr ?h"
    by (simp add: struct_pack_II_def le32_def OP_FRAME_def)
  have lo: "loads ?cdc ?bs = Inr (PDict [])"
    by (simp add: table_codec_def ascii_def)
  have i: "inbuf ?s = ?h @ ?bs @ []" by simp
  have "\<exists>s'. send_recv stream_ops ?cdc ?s (PDict [(''v'', PInt 1), (''client_id'', PStr ''42'')])
          OP_HANDSHAKE = Some (Inr (OP_FRAME, PDict []), s') \<and> inbuf s' = []"
    by (rule stream_send_recv [OF d lx _ _ _ _ p i lo]) (simp_all add: OP_HANDSHAKE_def)
  then obtain s' where
    "send_recv stream_ops ?cdc ?s (PDict [(''v'', PInt 1), (''client_id'', PStr ''42'')])
          OP_HANDSHAKE = Some (Inr (OP_FRAME, PDict []), s')" by blast
  from do_handshake_missing_key [OF this]
  have "do_handshake stream_ops ?cdc ''42'' ?s = Some (Inl (KeyError ''cmd''), s')" by simp
  then show ?thesis by auto
qed

text \<open>
  Claim C1, as the spec states it: for every op code and every value that \<^verbatim>\<open>json.dumps\<close>
  serialises, \<open>recv\<close> gives back the pair that \<open>send\<close> framed. This fails for the tuple
  \<^verbatim>\<open>(1, 2)\<close>. \<^verbatim>\<open>json.dumps\<close> writes it as \<^verbatim>\<open>[1,2]\<close>, the text of the list \<^verbatim>\<open>[1, 2]\<close>, so
  \<open>send\<close> puts the same bytes on the wire for both values and no decoder whatever returns
  the tuple for the one and the list for the other; a decoder that reads \<^verbatim>\<open>[1,2]\<close> as
  the list, as \<^verbatim>\<open>json.loads\<close> does, returns the list where the tuple was sent.
\<close>

theorem framing_roundtrip_counterexample:
  "(\<forall>ld. \<not> ((\<exists>r'. recv stream_ops \<lparr>dumps = json_dumps, loads = ld\<rparr>
                  \<lparr>inbuf = concat (written (snd (send stream_ops \<lparr>dumps = json_dumps, loads = ld\<rparr>
                       \<lparr>inbuf = [], sched = [], written = [], wfail = False, is_closed = False\<rparr>
                       (PTuple [PInt 1, PInt 2]) OP_FRAME))),
                   sched = [], written = [], wfail = False, is_closed = False\<rparr> =
                Some (Inr (OP_FRAME, PTuple [PInt 1, PInt 2]), r')) \<and>
             (\<exists>r'. recv stream_ops \<lparr>dumps = json_dumps, loads = ld\<rparr>
                  \<lparr>inbuf = concat (written (snd (send stream_ops \<lparr>dumps = json_dumps, loads = ld\<rparr>
                       \<lparr>inbuf = [], sched = [], written = [], wfail = False, is_closed = False\<rparr>
                       (PList [PInt 1, PInt 2]) OP_FRAME))),
                   sched = [], written = [], wfail = False, is_closed = False\<rparr> =
                Some (Inr (OP_FRAME, PList [PInt 1, PInt 2]), r')))) \<and>
   json_dumps (PTuple [PInt 1, PInt 2]) = Inr (ascii ''[1,2]'') \<and>
   json_dumps (PList [PInt 1, PInt 2]) = Inr (ascii ''[1,2]'') \<and>
   (\<exists>r'. recv stream_ops
       \<lparr>dumps = json_dumps, loads = loads (table_codec [(PList [PInt 1, PInt 2], ''[1,2]'')])\<rparr>
       \<lparr>inbuf = concat (written (snd (send stream_ops
            \<lparr>dumps = json_dumps, loads = loads (table_codec [(PList [PInt 1, PInt 2], ''[1,2]'')])\<rparr>
            \<lparr>inbuf = [], sched = [], written = [], wfail = False, is_closed = False\<rparr>
            (PTuple [PInt 1, PInt 2]) OP_FRAME))),
        sched = [], written = [], wfail = False, is_closed = False\<rparr> =
      Some (Inr (OP_FRAME, PList [PInt 1, PInt 2]), r')) \<and>
   PList [PInt 1, PInt 2] \<noteq> PTuple [PInt 1, PInt 2]"
proof (intro conjI allI notI)
  fix ld
  let ?cdc = "\<lparr>dumps = json_dumps, loads = ld\<rparr>"
  let ?s = "\<lparr>inbuf = [], sched = [], written = [], wfail = False, is_closed = False\<rparr>"
  have e: "send stream_ops ?cdc ?s (PTuple [PInt 1, PInt 2]) OP_FRAME =
           send stream_ops ?cdc ?s (PList [PInt 1, PInt 2]) OP_FRAME"
    by (simp add: send_def json_dumps_def)
  assume "(\<exists>r'. recv stream_ops ?cdc
                  \<lparr>inbuf = concat (written (snd (send stream_ops ?cdc ?s
                       (PTuple [PInt 1, PInt 2]) OP_FRAME))),
                   sched = [], written = [], wfail = False, is_closed = False\<rparr> =
                Some (Inr (OP_FRAME, PTuple [PInt 1, PInt 2]), r')) \<and>
             (\<exists>r'. recv stream_ops ?cdc
                  \<lparr>inbuf = concat (written (snd (send stream_ops ?cdc ?s
                       (PList [PInt 1, PInt 2]) OP_FRAME))),
                   sched = [], written = [], wfail = False, is_closed = False\<rparr> =
                Some (Inr (OP_FRAME, PList [PInt 1, PInt 2]), r'))"
  then show False unfolding e by auto
next
  show "json_dumps (PTuple [PInt 1, PInt 2]) = Inr (ascii ''[1,2]'')"
    by (simp add: json_dumps_def)
next
  show "json_dumps (PList [PInt 1, PInt 2]) = Inr (ascii ''[1,2]'')"
    by (simp add: json_dumps_def)
next
  let ?cdc = "\<lparr>dumps = json_dumps, loads = loads (table_codec [(PList [PInt 1, PInt 2], ''[1,2]'')])\<rparr>"
  let ?s = "\<lparr>inbuf = [], sched = [], written = [], wfail = False, is_closed = False\<rparr>"
  let ?bs = "ascii ''[1,2]''"
  let ?h = "[1, 0, 0, 0, 5, 0, 0, 0] :: bytes"
  have d: "dumps ?cdc (PTuple [PInt 1, PInt 2]) = Inr ?bs"
    by (simp add: json_dumps_def)
  have p: "struct_pack_II OP_FRAME (int (length ?bs)) = Inr ?h"
    by (simp add: struct_pack_II_def le32_def OP_FRAME_def ascii_def)
  have sd: "send stream_ops ?cdc ?s (PTuple [PInt 1, PInt 2]) OP_FRAME =
      (Inr (), ?s\<lparr>written := written ?s @ [?h, ?bs]\<rparr>)"
    by (rule stream_send [OF d p]) simp_all
  have lo: "loads ?cdc ?bs = Inr (PList [PInt 1, PInt 2])"
    by (simp add: table_codec_def)
  let ?r = "\<lparr>inbuf = concat (written (snd (send stream_ops ?cdc ?s (PTuple [PInt 1, PInt 2])
                 OP_FRAME))),
             sched = [], written = [], wfail = False, is_closed = False\<rparr>"
  have i: "inbuf ?r = ?h @ ?bs @ []" unfolding sd by simp
  have c: "\<not> is_closed ?r" by simp
  from stream_recv_ok [OF p c i lo]
  show "\<exists>r'. recv stream_ops ?cdc ?r = Some (Inr (OP_FRAME, PList [PInt 1, PInt 2]), r')"
    by blast
next
  assume "PList [PInt 1, PInt 2] = PTuple [PInt 1, PInt 2]"
  then show False by simp
qed

text \<open>
  Claim C1, amended. Let \<open>v\<close> be a value that the JSON codec serialises to \<open>bs\<close> and reads
  back from \<open>bs\<close> as \<open>v\<close>, let the op code and the length of \<open>bs\<close> fit an unsigned
  32-bit field, and let \<open>send\<close> run on an open stream. Then \<open>send\<close> writes two things:
  a header of eight bytes, the op code first and the length of \<open>bs\<close> second, each with
  its least significant byte first, and then \<open>bs\<close>. And \<open>recv\<close>, on any stream that
  delivers these bytes (whatever the sizes of the chunks), returns the same op code and
  the same value and leaves what follows the frame unread.
\<close>

theorem framing_roundtrip:
  assumes "dumps cdc v = Inr bs" and "loads cdc bs = Inr v"
    and "0 \<le> op" and "op < 4294967296" and "length bs < 4294967296"
    and "\<not> is_closed s" and "\<not> wfail s" and "written s = []"
    and "\<not> is_closed r"
    and "inbuf r = concat (written (snd (send stream_ops cdc s v op))) @ rest"
  shows "send stream_ops cdc s v op =
           (Inr (), s\<lparr>written :=
              [map of_nat [nat op, nat op div 256, nat op div 65536, nat op div 16777216,
                           length bs, length bs div 256, length bs div 65536,
                           length bs div 16777216],
               bs]\<rparr>) \<and>
         (\<exists>r'. recv stream_ops cdc r = Some (Inr (op, v), r') \<and> inbuf r' = rest)"
proof -
  let ?h = "map of_nat [nat op, nat op div 256, nat op div 65536, nat op div 16777216,
                        length bs, length bs div 256, length bs div 65536,
                        length bs div 16777216] :: bytes"
  have p: "struct_pack_II op (int (length bs)) = Inr ?h"
    by (rule pack_header [OF assms(3,4,5)])
  have s: "send stream_ops cdc s v op = (Inr (), s\<lparr>written := [?h, bs]\<rparr>)"
    using stream_send [OF assms(1) p assms(6,7)] assms(8) by simp
  have i: "inbuf r = ?h @ bs @ rest" using assms(10) unfolding s by simp
  from stream_recv_ok [OF p assms(9) i assms(2)] obtain r' where
    "recv stream_ops cdc r = Some (Inr (op, v), r')" "inbuf r' = rest" by blast
  with s show ?thesis by blast
qed

theorem framing_roundtrip_witness:
  "send stream_ops (table_codec [(PDict [], ''{}'')])
     \<lparr>inbuf = [], sched = [], written = [], wfail = False, is_closed = False\<rparr>
     (PDict []) OP_FRAME =
     (Inr (), \<lparr>inbuf = [], sched = [], written = [[1, 0, 0, 0, 2, 0, 0, 0], [123, 125]],
               wfail = False, is_closed = False\<rparr>) \<and>
   (\<exists>r'. recv stream_ops (table_codec [(PDict [], ''{}'')])
       \<lparr>inbuf = [1, 0, 0, 0, 2, 0, 0, 0, 123, 125, 7], sched = [0, 2, 0, 0], written = [],
        wfail = False, is_closed = False\<rparr> = Some (Inr (OP_FRAME, PDict []), r') \<and>
     inbuf r' = [7])"
proof -
  let ?cdc = "table_codec [(PDict [], ''{}'')]"
  let ?s = "\<lparr>inbuf = [], sched = [], written = [], wfail = False, is_closed = False\<rparr>"
  let ?r = "\<lparr>inbuf = [1, 0, 0, 0, 2, 0, 0, 0, 123, 125, 7], sched = [0, 2, 0, 0],
             written = [], wfail = False, is_closed = False\<rparr>"
  have d: "dumps ?cdc (PDict []) = Inr [123, 125]"
    by (simp add: table_codec_def ascii_def)
  have l: "loads ?cdc [123, 125] = Inr (PDict [])"
    by (simp add: table_codec_def ascii_def)
  have sd: "send stream_ops ?cdc ?s (PDict []) OP_FRAME =
      (Inr (), ?s\<lparr>written := [[1, 0, 0, 0, 2, 0, 0, 0], [123, 125]]\<rparr>)"
    by (simp add: send_def d struct_pack_II_def le32_def stream_ops_def stream_write_def
        OP_FRAME_def)
  have i: "inbuf ?r = concat (written (snd (send stream_ops ?cdc ?s (PDict []) OP_FRAME))) @ [7]"
    by (simp add: sd)
  from framing_roundtrip [of ?cdc "PDict []" "[123, 125]" OP_FRAME ?s ?r "[7]",
      OF d l _ _ _ _ _ _ _ i]
  show ?thesis by (simp add: OP_FRAME_def)
qed

text \<open>
  Claim C9, as it is stated: the loop of \<^verbatim>\<open>_recv_exactly\<close> terminates only when every
  read returns at least one byte, and never terminates if a read ever returns the empty
  string. This fails for a transport whose first read returns the empty string and
  whose later reads return one byte each: \<^verbatim>\<open>_recv_exactly(2)\<close> returns two bytes after
  three reads.
\<close>

theorem recv_exactly_empty_chunk_counterexample:
  "t_recv blip_ops 0 2 = (Inr [], 1) \<and>
   recv_exactly blip_ops 0 2 = Some (Inr [7, 7], 3)"
  by (simp add: recv_exactly_def recv_exactly_loop.simps blip_ops_def)

text \<open>
  Claim C9, amended. The loop of \<^verbatim>\<open>_recv_exactly\<close> ends when every read hands over at
  least one byte and at most what was asked for. It never ends once the transport has
  reached end of file, that is, once every read from then on returns the empty string:
  \<open>E\<close> is any set of states that such reads do not leave. So on a byte stream that the
  peer closes in the middle of a frame (only the first \<open>m\<close> bytes of header and payload
  arrive) neither \<open>recv\<close> nor \<open>set_activity\<close> returns. Nor does the loop end after a read
  that hands over more than was asked for, on a transport whose reads do not raise: the
  count of bytes that remain goes below zero and is never zero again.
\<close>

theorem recv_exactly_may_not_terminate:
  "((\<forall>t k. 0 < k \<longrightarrow>
       (\<exists>c t'. t_recv ops t k = (Inr c, t') \<and> 1 \<le> length c \<and> int (length c) \<le> k)) \<longrightarrow>
    recv_exactly ops t (int n) \<noteq> None) \<and>
   ((\<forall>u j. E u \<and> 0 < j \<longrightarrow> (\<exists>u'. t_recv ops2 u j = (Inr [], u') \<and> E u')) \<and> E t2 \<and> 0 < k \<longrightarrow>
    recv_exactly ops2 t2 k = None) \<and>
   (struct_pack_II op (int (length bs)) = Inr h \<and> \<not> is_closed r \<and>
    inbuf r = take m (h @ bs) \<and> m < length (h @ bs) \<longrightarrow>
    recv stream_ops cdc r = None) \<and>
   (check_texts a = Inr () \<and> dumps cdc (envelope pid nonce a) = Inr x \<and>
    length x < 4294967296 \<and> \<not> is_closed (conn self) \<and> \<not> wfail (conn self) \<and>
    struct_pack_II op (int (length bs)) = Inr h \<and>
    inbuf (conn self) = take m (h @ bs) \<and> m < length (h @ bs) \<longrightarrow>
    set_activity stream_ops cdc pid nonce self a = None) \<and>
   ((\<forall>u j. \<exists>c u'. t_recv ops3 u j = (Inr c, u')) \<and> 0 < k3 \<and>
    t_recv ops3 t3 k3 = (Inr c3, t3') \<and> k3 < int (length c3) \<longrightarrow>
    recv_exactly ops3 t3 k3 = None)"
proof (intro conjI impI)
  assume "\<forall>t k. 0 < k \<longrightarrow>
       (\<exists>c t'. t_recv ops t k = (Inr c, t') \<and> 1 \<le> length c \<and> int (length c) \<le> k)"
  then have "\<And>t k. 0 < k \<Longrightarrow>
       \<exists>c t'. t_recv ops t k = (Inr c, t') \<and> 1 \<le> length c \<and> int (length c) \<le> k"
    by blast
  from loop_contract [of ops t "[]" n, OF this]
  show "recv_exactly ops t (int n) \<noteq> None"
    by (auto simp: recv_exactly_def)
next
  assume a: "(\<forall>u j. E u \<and> 0 < j \<longrightarrow> (\<exists>u'. t_recv ops2 u j = (Inr [], u') \<and> E u')) \<and> E t2 \<and> 0 < k"
  then have eof: "\<And>u j. E u \<Longrightarrow> 0 < j \<Longrightarrow> \<exists>u'. t_recv ops2 u j = (Inr [], u') \<and> E u'"
    by blast
  from a have "E t2" and "0 < k" by simp_all
  from loop_eof [of E ops2 t2 k "[]", OF eof this]
  show "recv_exactly ops2 t2 k = None"
    by (simp add: recv_exactly_def)
next
  assume "struct_pack_II op (int (length bs)) = Inr h \<and> \<not> is_closed r \<and>
    inbuf r = take m (h @ bs) \<and> m < length (h @ bs)"
  then show "recv stream_ops cdc r = None"
    using stream_recv_truncated [of op bs h r m cdc] by blast
next
  assume "check_texts a = Inr () \<and> dumps cdc (envelope pid nonce a) = Inr x \<and>
    length x < 4294967296 \<and> \<not> is_closed (conn self) \<and> \<not> wfail (conn self) \<and>
    struct_pack_II op (int (length bs)) = Inr h \<and>
    inbuf (conn self) = take m (h @ bs) \<and> m < length (h @ bs)"
  then show "set_activity stream_ops cdc pid nonce self a = None"
    using stream_set_activity_truncated [of a cdc pid nonce x self op bs h m] by blast
next
  assume a: "(\<forall>u j. \<exists>c u'. t_recv ops3 u j = (Inr c, u')) \<and> 0 < k3 \<and>
    t_recv ops3 t3 k3 = (Inr c3, t3') \<and> k3 < int (length c3)"
  then have nr: "\<And>u j. \<exists>c u'. t_recv ops3 u j = (Inr c, u')" by blast
  from a have "0 < k3" and "t_recv ops3 t3 k3 = (Inr c3, t3')" and "k3 < int (length c3)"
    by simp_all
  from loop_overlong [of ops3 k3 t3 c3 t3' "[]", OF nr this]
  show "recv_exactly ops3 t3 k3 = None"
    by (simp add: recv_exactly_def)
qed

theorem recv_exactly_may_not_terminate_witness:
  \<open>recv_exactly drip_ops 0 (int 3) \<noteq> None \<and>
   recv_exactly stream_ops
     \<lparr>inbuf = [], sched = [], written = [], wfail = False, is_closed = False\<rparr> 5 = None \<and>
   recv stream_ops (table_codec [])
     \<lparr>inbuf = [1, 0, 0, 0, 2, 0, 0, 0, 123], sched = [], written = [], wfail = False,
      is_closed = False\<rparr> = None \<and>
   set_activity stream_ops
     (table_codec [(envelope 1 ''n'' default_args,
        ''{"cmd":"SET_ACTIVITY","args":{"pid":1,"activity":{"assets":{"small_image":"null","large_image":"null"}}},"nonce":"n"}'')])
     1 ''n''
     \<lparr>client_id = ''1'', get_output = PNone,
      conn = \<lparr>inbuf = [1, 0, 0, 0, 2, 0, 0, 0, 123], sched = [], written = [], wfail = False,
              is_closed = False\<rparr>\<rparr>
     default_args = None \<and>
   recv_exactly two_ops 0 1 = None\<close>
proof -
  let ?r = "\<lparr>inbuf = [1, 0, 0, 0, 2, 0, 0, 0, 123], sched = [], written = [], wfail = False,
             is_closed = False\<rparr>"
  let ?e = "\<lparr>inbuf = [], sched = [], written = [], wfail = False, is_closed = False\<rparr>"
  let ?E = "\<lambda>s. \<not> is_closed s \<and> inbuf s = []"
  let ?h = "[1, 0, 0, 0, 2, 0, 0, 0] :: bytes"
  let ?bs = "[123, 125] :: bytes"
  have p: "struct_pack_II 1 (int (length ?bs)) = Inr ?h"
    by (simp add: struct_pack_II_def le32_def)
  have i: "inbuf ?r = take 9 (?h @ ?bs)" by simp
  note T = recv_exactly_may_not_terminate
  have A: "recv_exactly drip_ops 0 (int 3) \<noteq> None"
    using T [where ops = drip_ops and t = 0 and n = 3, THEN conjunct1] by (simp add: drip_ops_def)
  have B: "recv_exactly stream_ops ?e 5 = None"
    using T [where E = ?E and ?ops2.0 = stream_ops and ?t2.0 = ?e and k = 5,
        THEN conjunct2, THEN conjunct1]
    by (simp add: stream_ops_def stream_recv_def)
  have C: "recv stream_ops (table_codec []) ?r = None"
    using T [where op = 1 and bs = ?bs and h = ?h and r = ?r and m = 9
        and cdc = "table_codec []", THEN conjunct2, THEN conjunct2, THEN conjunct1] p
    by simp
  let ?cdc = \<open>table_codec [(envelope 1 ''n'' default_args,
        ''{"cmd":"SET_ACTIVITY","args":{"pid":1,"activity":{"assets":{"small_image":"null","large_image":"null"}}},"nonce":"n"}'')]\<close>
  let ?self = "\<lparr>client_id = ''1'', get_output = PNone, conn = ?r\<rparr>"
  have ck: "check_texts default_args = Inr ()"
    by (simp add: check_texts_def default_args_def py_len_def)
  obtain x where d: "dumps ?cdc (envelope 1 ''n'' default_args) = Inr x"
    and lx: "length x < 4294967296"
    by (simp add: table_codec_def ascii_def)
  have D: "set_activity stream_ops ?cdc 1 ''n'' ?self default_args = None"
    using T [where a = default_args and cdc = ?cdc and pid = 1 and nonce = "''n''" and x = x
        and self = ?self and op = 1 and bs = ?bs and h = ?h and m = 9,
        THEN conjunct2, THEN conjunct2, THEN conjunct2, THEN conjunct1] ck d lx p
    by simp
  have F: "recv_exactly two_ops 0 1 = None"
    using T [where ?ops3.0 = two_ops and ?t3.0 = 0 and ?k3.0 = 1 and ?c3.0 = "[7, 7]"
        and ?t3' = 1,
        THEN conjunct2, THEN conjunct2, THEN conjunct2, THEN conjunct2]
    by (simp add: two_ops_def)
  show ?thesis using A B C D F by simp
qed

text \<open>
  Claim C7. \<open>set_activity\<close> with a \<^verbatim>\<open>small_text\<close> of at most three characters and every
  other argument at its default raises the validation error for the small text and
  returns the object as it was: whatever the transport and the codec are, nothing has
  been written to the transport and no field of the object has changed.
\<close>

theorem set_activity_short_small_text:
  "length s \<le> 3 \<Longrightarrow>
   set_activity ops cdc pid nonce self (default_args\<lparr>small_text := Some s\<rparr>) =
     Some (Inl (Error small_text_msg), self)"
proof -
  assume l: "length s \<le> 3"
  have "check_texts (default_args\<lparr>small_text := Some s\<rparr>) = Inl (Error small_text_msg)"
    by (rule check_texts_small_short [where n = 4 and s = s])
       (simp_all add: default_args_def py_len_def l)
  then show ?thesis by (rule set_activity_invalid)
qed

theorem set_activity_short_small_text_witness:
  "set_activity stream_ops (table_codec []) 1 ''n''
     \<lparr>client_id = ''1'', get_output = PNone,
      conn = \<lparr>inbuf = [], sched = [], written = [], wfail = False, is_closed = False\<rparr>\<rparr>
     (default_args\<lparr>small_text := Some ''ab''\<rparr>) =
   Some (Inl (Error small_text_msg),
     \<lparr>client_id = ''1'', get_output = PNone,
      conn = \<lparr>inbuf = [], sched = [], written = [], wfail = False, is_closed = False\<rparr>\<rparr>)"
  using set_activity_short_small_text [of "''ab''" stream_ops "table_codec []" 1 "''n''"
      "\<lparr>client_id = ''1'', get_output = PNone,
        conn = \<lparr>inbuf = [], sched = [], written = [], wfail = False, is_closed = False\<rparr>\<rparr>"]
  by simp



text \<open>
  Claim C3, as it is stated: every field whose value is absent (unset, the empty string
  or \<^verbatim>\<open>'null'\<close>) is left out of the activity, the two images included. The code has no
  pop for the images: with both at the default \<^verbatim>\<open>'null'\<close> the assets hold
  \<^verbatim>\<open>"small_image": "null"\<close> and \<^verbatim>\<open>"large_image": "null"\<close>, and the empty string and
  \<^verbatim>\<open>None\<close> come out as \<^verbatim>\<open>""\<close> and \<^verbatim>\<open>"None"\<close>. For \<^verbatim>\<open>timestamp\<close> and \<^verbatim>\<open>buttons\<close> only
  \<^verbatim>\<open>None\<close> counts as absent: the empty string and \<^verbatim>\<open>'null'\<close> are serialised.
\<close>

theorem activity_images_counterexample:
  "small_image default_args = Some ''null'' \<and> large_image default_args = Some ''null'' \<and>
   activity default_args =
     [(''assets'', PDict [(''small_image'', PStr ''null''), (''large_image'', PStr ''null'')])] \<and>
   activity (default_args\<lparr>small_image := Some [], large_image := None\<rparr>) =
     [(''assets'', PDict [(''small_image'', PStr []), (''large_image'', PStr ''None'')])] \<and>
   activity (default_args\<lparr>timestamp := PStr [], buttons := PStr ''null''\<rparr>) =
     [(''timestamps'', PDict [(''start'', PStr [])]),
      (''assets'', PDict [(''small_image'', PStr ''null''), (''large_image'', PStr ''null'')]),
      (''buttons'', PStr ''null'')]"
  by (simp add: activity_def default_args_def dict_pop_def assets_pop_def py_of_def py_str_def)

text \<open>
  Claim C3, amended. The activity that \<open>set_activity\<close> builds holds \<^verbatim>\<open>state\<close> and
  \<^verbatim>\<open>details\<close> exactly when the argument is none of \<^verbatim>\<open>None\<close>, the empty string and
  \<^verbatim>\<open>'null'\<close>, and then with the argument as the value, so neither is ever serialised as
  \<^verbatim>\<open>null\<close>, as the empty string or as \<^verbatim>\<open>"null"\<close>; the same holds for \<^verbatim>\<open>small_text\<close> and
  \<^verbatim>\<open>large_text\<close> inside \<^verbatim>\<open>assets\<close>. It holds \<^verbatim>\<open>timestamps\<close> exactly when \<^verbatim>\<open>timestamp\<close> is
  not \<^verbatim>\<open>None\<close>, and \<^verbatim>\<open>buttons\<close> exactly when \<^verbatim>\<open>buttons\<close> is not \<^verbatim>\<open>None\<close>. \<^verbatim>\<open>assets\<close> is
  always there and always holds \<^verbatim>\<open>small_image\<close> and \<^verbatim>\<open>large_image\<close>, with \<^verbatim>\<open>str\<close> of the
  argument as the value. The keys come in the order of the equation.
\<close>

theorem activity_omission:
  "activity a =
     (if state a = None \<or> state a = Some [] \<or> state a = Some ''null'' then []
      else [(''state'', py_of (state a))]) @
     (if details a = None \<or> details a = Some [] \<or> details a = Some ''null'' then []
      else [(''details'', py_of (details a))]) @
     (if timestamp a = PNone then [] else [(''timestamps'', PDict [(''start'', timestamp a)])]) @
     [(''assets'', PDict
        ((if small_text a = None \<or> small_text a = Some [] \<or> small_text a = Some ''null''
          then [] else [(''small_text'', py_of (small_text a))]) @
         (if large_text a = None \<or> large_text a = Some [] \<or> large_text a = Some ''null''
          then [] else [(''large_text'', py_of (large_text a))]) @
         [(''small_image'', PStr (py_str (small_image a))),
          (''large_image'', PStr (py_str (large_image a)))]))] @
     (if buttons a = PNone then [] else [(''buttons'', buttons a)]) \<and>
   (''state'', PNone) \<notin> set (activity a) \<and> (''state'', PStr []) \<notin> set (activity a) \<and>
   (''state'', PStr ''null'') \<notin> set (activity a) \<and>
   (''details'', PNone) \<notin> set (activity a) \<and> (''details'', PStr []) \<notin> set (activity a) \<and>
   (''details'', PStr ''null'') \<notin> set (activity a)"
proof -
  have s: "(''state'', PNone) \<notin> set (activity a) \<and> (''state'', PStr []) \<notin> set (activity a) \<and>
     (''state'', PStr ''null'') \<notin> set (activity a)"
    unfolding activity_shape by (cases "state a") (auto simp: py_of_def)
  have d: "(''details'', PNone) \<notin> set (activity a) \<and> (''details'', PStr []) \<notin> set (activity a) \<and>
     (''details'', PStr ''null'') \<notin> set (activity a)"
    unfolding activity_shape by (cases "details a") (auto simp: py_of_def)
  show ?thesis using activity_shape [of a] s d by simp
qed


text \<open>
  Claim C5. Both \<^verbatim>\<open>_connect\<close> methods go through the indices 0 to 9 in ascending order and
  stop at the first candidate that opens. For \<open>win_connect\<close>: if the candidates before \<open>k\<close>
  raise \<^verbatim>\<open>OSError\<close> and candidate \<open>k\<close> opens, the result is that file and its path, and the
  candidates tried are exactly those of the indices \<open>0, \<dots>, k\<close>, in this order, each once;
  if all ten raise \<^verbatim>\<open>OSError\<close>, the result is \<^verbatim>\<open>DiscordNotOpened\<close> after exactly one attempt
  at each of the ten indices; and whatever \<^verbatim>\<open>open\<close> does, the candidates tried are those of
  the indices \<open>0, \<dots>, n - 1\<close> for some \<open>n \<le> 10\<close>, in this order. For \<open>unix_connect\<close>, where
  \<^verbatim>\<open>pipe_pattern.format(i)\<close> is the path \<open>path i\<close>: the same three facts, a candidate failing
  when its path does not exist (it is skipped with no connect) or when the connect raises
  \<^verbatim>\<open>OSError\<close>. When \<^verbatim>\<open>format\<close> raises at index 0 the exception is the result and no
  candidate is tried.
\<close>

theorem connect_enumeration:
  "(k < 10 \<and> (\<forall>j<k. \<exists>m. os_open (pipe_path j) = Inl (OSError m)) \<and>
    os_open (pipe_path k) = Inr f \<longrightarrow>
    win_connect os_open =
      (Inr (f, pipe_path k),
       map (\<lambda>j. Refused (pipe_path j)) [0..<k] @ [Opened (pipe_path k)])) \<and>
   ((\<forall>j<10. \<exists>m. os_open (pipe_path j) = Inl (OSError m)) \<longrightarrow>
    win_connect os_open =
      (Inl DiscordNotOpened, map (\<lambda>j. Refused (pipe_path j)) [0..<10])) \<and>
   length (snd (win_connect os_open)) \<le> 10 \<and>
   map attempt_path (snd (win_connect os_open)) =
     map pipe_path [0..<length (snd (win_connect os_open))] \<and>
   ((\<forall>j\<le>k. str_format (get_pipe_pattern environ) j = Inr (path j)) \<and> k < 10 \<and>
    (\<forall>j<k. \<not> path_exists (path j) \<or> (\<exists>m. sock_connect (path j) = Inl (OSError m))) \<and>
    path_exists (path k) \<and> sock_connect (path k) = Inr () \<longrightarrow>
    unix_connect str_format environ path_exists sock_connect =
      (Inr (path k),
       map (\<lambda>j. if path_exists (path j) then Refused (path j) else Absent (path j)) [0..<k] @
         [Opened (path k)])) \<and>
   ((\<forall>j<10. str_format (get_pipe_pattern environ) j = Inr (path j) \<and>
       (\<not> path_exists (path j) \<or> (\<exists>m. sock_connect (path j) = Inl (OSError m)))) \<longrightarrow>
    unix_connect str_format environ path_exists sock_connect =
      (Inl DiscordNotOpened,
       map (\<lambda>j. if path_exists (path j) then Refused (path j) else Absent (path j)) [0..<10])) \<and>
   ((\<forall>j<10. str_format (get_pipe_pattern environ) j = Inr (path j)) \<longrightarrow>
    length (snd (unix_connect str_format environ path_exists sock_connect)) \<le> 10 \<and>
    map attempt_path (snd (unix_connect str_format environ path_exists sock_connect)) =
      map path [0..<length (snd (unix_connect str_format environ path_exists sock_connect))]) \<and>
   (str_format (get_pipe_pattern environ) 0 = Inl e \<longrightarrow>
    unix_connect str_format environ path_exists sock_connect = (Inl e, []))"
proof (intro conjI impI)
  assume a: "k < 10 \<and> (\<forall>j<k. \<exists>m. os_open (pipe_path j) = Inl (OSError m)) \<and>
    os_open (pipe_path k) = Inr f"
  then have "\<forall>j\<in>set [0..<k]. \<exists>m. os_open (pipe_path j) = Inl (OSError m)" by simp
  from win_loop_first [OF this, of k f "[Suc k..<10]"] a upt_split [of k 10]
  show "win_connect os_open =
      (Inr (f, pipe_path k),
       map (\<lambda>j. Refused (pipe_path j)) [0..<k] @ [Opened (pipe_path k)])"
    by (simp add: win_connect_def)
next
  assume "\<forall>j<10. \<exists>m. os_open (pipe_path j) = Inl (OSError m)"
  then have "\<forall>j\<in>set [0..<10]. \<exists>m. os_open (pipe_path j) = Inl (OSError m)" by simp
  from win_loop_all_fail [OF this]
  show "win_connect os_open =
      (Inl DiscordNotOpened, map (\<lambda>j. Refused (pipe_path j)) [0..<10])"
    by (simp add: win_connect_def)
next
  from win_loop_log [of os_open "[0..<10]"]
  show "length (snd (win_connect os_open)) \<le> 10"
    by (simp add: win_connect_def)
next
  from win_loop_log [of os_open "[0..<10]"]
  show "map attempt_path (snd (win_connect os_open)) =
     map pipe_path [0..<length (snd (win_connect os_open))]"
    by (simp add: win_connect_def take_upt0)
next
  assume a: "(\<forall>j\<le>k. str_format (get_pipe_pattern environ) j = Inr (path j)) \<and> k < 10 \<and>
    (\<forall>j<k. \<not> path_exists (path j) \<or> (\<exists>m. sock_connect (path j) = Inl (OSError m))) \<and>
    path_exists (path k) \<and> sock_connect (path k) = Inr ()"
  then have h: "\<forall>j\<in>set [0..<k]. str_format (get_pipe_pattern environ) j = Inr (path j) \<and>
             (\<not> path_exists (path j) \<or> (\<exists>m. sock_connect (path j) = Inl (OSError m)))"
    by simp
  from a have "str_format (get_pipe_pattern environ) k = Inr (path k)"
    and "path_exists (path k)" and "sock_connect (path k) = Inr ()"
    by simp_all
  from unix_loop_first [where xs = "[0..<k]" and str_format = str_format
      and pat = "get_pipe_pattern environ" and path = path and path_exists = path_exists
      and sock_connect = sock_connect and k = k and u = "()" and ys = "[Suc k..<10]", OF h this]
    a upt_split [of k 10]
  show "unix_connect str_format environ path_exists sock_connect =
      (Inr (path k),
       map (\<lambda>j. if path_exists (path j) then Refused (path j) else Absent (path j)) [0..<k] @
         [Opened (path k)])"
    by (simp add: unix_connect_def)
next
  assume "\<forall>j<10. str_format (get_pipe_pattern environ) j = Inr (path j) \<and>
       (\<not> path_exists (path j) \<or> (\<exists>m. sock_connect (path j) = Inl (OSError m)))"
  then have "\<forall>j\<in>set [0..<10]. str_format (get_pipe_pattern environ) j = Inr (path j) \<and>
       (\<not> path_exists (path j) \<or> (\<exists>m. sock_connect (path j) = Inl (OSError m)))"
    by simp
  from unix_loop_all_fail [where xs = "[0..<10]" and str_format = str_format
      and pat = "get_pipe_pattern environ" and path = path and path_exists = path_exists
      and sock_connect = sock_connect, OF this]
  show "unix_connect str_format environ path_exists sock_connect =
      (Inl DiscordNotOpened,
       map (\<lambda>j. if path_exists (path j) then Refused (path j) else Absent (path j)) [0..<10])"
    by (simp add: unix_connect_def)
next
  assume "\<forall>j<10. str_format (get_pipe_pattern environ) j = Inr (path j)"
  then have h: "\<forall>j\<in>set [0..<10]. str_format (get_pipe_pattern environ) j = Inr (path j)"
    by simp
  from unix_loop_log [where xs = "[0..<10]" and str_format = str_format
      and pat = "get_pipe_pattern environ" and path = path and path_exists = path_exists
      and sock_connect = sock_connect, OF h]
  show "length (snd (unix_connect str_format environ path_exists sock_connect)) \<le> 10"
    by (simp add: unix_connect_def)
  from unix_loop_log [where xs = "[0..<10]" and str_format = str_format
      and pat = "get_pipe_pattern environ" and path = path and path_exists = path_exists
      and sock_connect = sock_connect, OF h]
  show "map attempt_path (snd (unix_connect str_format environ path_exists sock_connect)) =
      map path [0..<length (snd (unix_connect str_format environ path_exists sock_connect))]"
    by (simp add: unix_connect_def take_upt0)
next
  assume "str_format (get_pipe_pattern environ) 0 = Inl e"
  then show "unix_connect str_format environ path_exists sock_connect = (Inl e, [])"
    by (simp add: unix_connect_def upt_0_10)
qed

theorem connect_enumeration_witness:
  "win_connect (\<lambda>p. if p = pipe_path 3 then Inr (5 :: nat) else Inl (OSError ''ENOENT'')) =
     (Inr (5, pipe_path 3),
      [Refused (pipe_path 0), Refused (pipe_path 1), Refused (pipe_path 2),
       Opened (pipe_path 3)]) \<and>
   pipe_path 3 =
     [CHR 0x5C, CHR 0x5C] @ ''?'' @ [CHR 0x5C] @ ''pipe'' @ [CHR 0x5C] @ ''discord-ipc-3'' \<and>
   win_connect (\<lambda>p. Inl (OSError ''ENOENT'') :: error + nat) =
     (Inl DiscordNotOpened,
      [Refused (pipe_path 0), Refused (pipe_path 1), Refused (pipe_path 2),
       Refused (pipe_path 3), Refused (pipe_path 4), Refused (pipe_path 5),
       Refused (pipe_path 6), Refused (pipe_path 7), Refused (pipe_path 8),
       Refused (pipe_path 9)]) \<and>
   unix_connect (\<lambda>p i. Inr (take (length p - 2) p @ decimal i)) Map.empty
     (\<lambda>p. p = ''/tmp/discord-ipc-1'' \<or> p = ''/tmp/discord-ipc-3'')
     (\<lambda>p. if p = ''/tmp/discord-ipc-3'' then Inr () else Inl (OSError ''ECONNREFUSED'')) =
     (Inr ''/tmp/discord-ipc-3'',
      [Absent ''/tmp/discord-ipc-0'', Refused ''/tmp/discord-ipc-1'',
       Absent ''/tmp/discord-ipc-2'', Opened ''/tmp/discord-ipc-3'']) \<and>
   unix_connect (\<lambda>p i. Inr (take (length p - 2) p @ decimal i)) Map.empty (\<lambda>p. False)
     (\<lambda>p. Inr ()) =
     (Inl DiscordNotOpened,
      [Absent ''/tmp/discord-ipc-0'', Absent ''/tmp/discord-ipc-1'',
       Absent ''/tmp/discord-ipc-2'', Absent ''/tmp/discord-ipc-3'',
       Absent ''/tmp/discord-ipc-4'', Absent ''/tmp/discord-ipc-5'',
       Absent ''/tmp/discord-ipc-6'', Absent ''/tmp/discord-ipc-7'',
       Absent ''/tmp/discord-ipc-8'', Absent ''/tmp/discord-ipc-9'']) \<and>
   unix_connect (\<lambda>p i. Inl (KeyError ''x'')) [''XDG_RUNTIME_DIR'' \<mapsto> ''/run/{x}'']
     (\<lambda>p. True) (\<lambda>p. Inr ()) = (Inl (KeyError ''x''), [])"
proof -
  note T = connect_enumeration
  let ?o = "\<lambda>p. if p = pipe_path 3 then Inr (5 :: nat) else Inl (OSError ''ENOENT'')"
  have o: "\<forall>j<3. \<exists>m. ?o (pipe_path j) = Inl (OSError m)"
  proof (intro allI impI)
    fix j :: nat
    assume "j < 3"
    from less_3_cases [OF this]
    show "\<exists>m. ?o (pipe_path j) = Inl (OSError m)"
      by (elim disjE) (simp_all add: pipe_path_digits)
  qed
  have A: "win_connect ?o =
     (Inr (5, pipe_path 3),
      [Refused (pipe_path 0), Refused (pipe_path 1), Refused (pipe_path 2),
       Opened (pipe_path 3)])"
    using T [where os_open = ?o and k = 3 and f = 5, THEN conjunct1] o
    by (simp add: upt_0_3)
  let ?n = "\<lambda>p. Inl (OSError ''ENOENT'') :: error + nat"
  have B: "win_connect ?n =
     (Inl DiscordNotOpened,
      [Refused (pipe_path 0), Refused (pipe_path 1), Refused (pipe_path 2),
       Refused (pipe_path 3), Refused (pipe_path 4), Refused (pipe_path 5),
       Refused (pipe_path 6), Refused (pipe_path 7), Refused (pipe_path 8),
       Refused (pipe_path 9)])"
    using T [where os_open = ?n, THEN conjunct2, THEN conjunct1]
    by (simp add: upt_0_10)
  let ?f = "\<lambda>p i. Inr (take (length p - 2) p @ decimal i) :: error + string"
  let ?p = "\<lambda>j. ''/tmp/discord-ipc-'' @ decimal j"
  let ?x = "\<lambda>p. p = ''/tmp/discord-ipc-1'' \<or> p = ''/tmp/discord-ipc-3''"
  let ?c = "\<lambda>p. if p = ''/tmp/discord-ipc-3'' then Inr () else Inl (OSError ''ECONNREFUSED'')"
  have f: "\<forall>j. ?f (get_pipe_pattern Map.empty) j = Inr (?p j)"
    by (simp add: get_pipe_pattern_default del: decimal.simps)
  have d: "?p 0 = ''/tmp/discord-ipc-0''" "?p 1 = ''/tmp/discord-ipc-1''"
    "?p (Suc 0) = ''/tmp/discord-ipc-1''"
    "?p 2 = ''/tmp/discord-ipc-2''" "?p 3 = ''/tmp/discord-ipc-3''"
    "?p 4 = ''/tmp/discord-ipc-4''" "?p 5 = ''/tmp/discord-ipc-5''"
    "?p 6 = ''/tmp/discord-ipc-6''" "?p 7 = ''/tmp/discord-ipc-7''"
    "?p 8 = ''/tmp/discord-ipc-8''" "?p 9 = ''/tmp/discord-ipc-9''"
    by simp_all
  have x: "\<forall>j<3. \<not> ?x (?p j) \<or> (\<exists>m. ?c (?p j) = Inl (OSError m))"
  proof (intro allI impI)
    fix j :: nat
    assume "j < 3"
    from less_3_cases [OF this]
    show "\<not> ?x (?p j) \<or> (\<exists>m. ?c (?p j) = Inl (OSError m))"
      by (elim disjE) simp_all
  qed
  have c1: "\<forall>j\<le>3. ?f (get_pipe_pattern Map.empty) j = Inr (?p j)"
    using f by blast
  have c2: "(3 :: nat) < 10" by simp
  have c4: "?x (?p 3)" by simp
  have c5: "?c (?p 3) = Inr ()" by simp
  have C0: "(\<forall>j\<le>3. ?f (get_pipe_pattern Map.empty) j = Inr (?p j)) \<and> (3 :: nat) < 10 \<and>
    (\<forall>j<3. \<not> ?x (?p j) \<or> (\<exists>m. ?c (?p j) = Inl (OSError m))) \<and>
    ?x (?p 3) \<and> ?c (?p 3) = Inr ()"
    by (intro conjI) (rule c1, rule c2, rule x, rule c4, rule c5)
  have C: "unix_connect ?f Map.empty ?x ?c =
     (Inr ''/tmp/discord-ipc-3'',
      [Absent ''/tmp/discord-ipc-0'', Refused ''/tmp/discord-ipc-1'',
       Absent ''/tmp/discord-ipc-2'', Opened ''/tmp/discord-ipc-3''])"
    using T [where str_format = ?f and environ = Map.empty and path = ?p and k = 3
        and path_exists = ?x and sock_connect = ?c,
        THEN conjunct2, THEN conjunct2, THEN conjunct2, THEN conjunct2, THEN conjunct1,
        THEN mp, OF C0]
    by (simp add: upt_0_3)
  let ?no = "\<lambda>p :: string. False"
  let ?ok = "\<lambda>p :: string. Inr () :: error + unit"
  have D0: "\<forall>j<10. ?f (get_pipe_pattern Map.empty) j = Inr (?p j) \<and>
       (\<not> ?no (?p j) \<or> (\<exists>m. ?ok (?p j) = Inl (OSError m)))"
    using f by blast
  have D: "unix_connect ?f Map.empty (\<lambda>p. False) (\<lambda>p. Inr ()) =
     (Inl DiscordNotOpened,
      [Absent ''/tmp/discord-ipc-0'', Absent ''/tmp/discord-ipc-1'',
       Absent ''/tmp/discord-ipc-2'', Absent ''/tmp/discord-ipc-3'',
       Absent ''/tmp/discord-ipc-4'', Absent ''/tmp/discord-ipc-5'',
       Absent ''/tmp/discord-ipc-6'', Absent ''/tmp/discord-ipc-7'',
       Absent ''/tmp/discord-ipc-8'', Absent ''/tmp/discord-ipc-9''])"
    using T [where str_format = ?f and environ = Map.empty and path = ?p
        and path_exists = ?no and sock_connect = ?ok,
        THEN conjunct2, THEN conjunct2, THEN conjunct2, THEN conjunct2, THEN conjunct2,
        THEN conjunct1, THEN mp, OF D0]
    by (simp add: upt_0_10)
  have E: "unix_connect (\<lambda>p i. Inl (KeyError ''x'')) [''XDG_RUNTIME_DIR'' \<mapsto> ''/run/{x}'']
     (\<lambda>p. True) (\<lambda>p. Inr ()) = (Inl (KeyError ''x''), [])"
    using T [where str_format = "\<lambda>p i. Inl (KeyError ''x'')"
        and environ = "[''XDG_RUNTIME_DIR'' \<mapsto> ''/run/{x}'']" and e = "KeyError ''x''"
        and path_exists = "\<lambda>p. True" and sock_connect = "\<lambda>p. Inr ()",
        THEN conjunct2, THEN conjunct2, THEN conjunct2, THEN conjunct2, THEN conjunct2,
        THEN conjunct2, THEN conjunct2]
    by simp
  show ?thesis using A B C D E by (simp add: pipe_path_digits)
qed

end
